theory Spec2Isabelle
  imports Main "HOL-Library.AList" "HOL-Library.Sublist"
begin

section \<open>Python values and configurations\<close>

text \<open>
  The values a configuration holds. No arithmetic is done on floats in the orchestration
  code, so a float is kept as its \<^verbatim>\<open>repr\<close> (the literal \<^verbatim>\<open>0.0\<close> is \<open>PFloat ''0.0''\<close>), and a
  class such as \<^verbatim>\<open>PPO\<close> as its qualified name.
\<close>

datatype pyval =
    PInt int
  | PFloat string
  | PStr string
  | PBool bool
  | PList "pyval list"
  | PClass string

text \<open>A \<^verbatim>\<open>dict\<close> (and the attribute dictionary of a \<^verbatim>\<open>Namespace\<close>) in insertion order.\<close>

type_synonym pydict = "(string \<times> pyval) list"
type_synonym namespace = "(string \<times> pyval) list"

type_synonym path = "string list"

datatype error =
    AttributeError string
  | FileNotFoundError path
  | NotADirectoryError path
  | IsADirectoryError path
  | FileExistsError path
  | ModuleNotFoundError string
  | UnpicklingError path
  | ValueError string
  | NotImplementedError
  | ExternalError string
  | AggregationError

text \<open>
  \<open>ExternalError\<close> is any exception raised inside an external capability (training,
  evaluation, pandas). \<open>AggregationError\<close> is the wrapper the specification names; no
  statement of the source raises it.
\<close>

definition bind_err :: "error + 'a \<Rightarrow> ('a \<Rightarrow> error + 'b) \<Rightarrow> error + 'b" where
  "bind_err m f = (case m of Inl e \<Rightarrow> Inl e | Inr x \<Rightarrow> f x)"

definition hasattr :: "namespace \<Rightarrow> string \<Rightarrow> bool" where
  "hasattr cfg k = (map_of cfg k \<noteq> None)"

definition getattr :: "namespace \<Rightarrow> string \<Rightarrow> error + pyval" where
  "getattr cfg k = (case map_of cfg k of None \<Rightarrow> Inl (AttributeError k) | Some v \<Rightarrow> Inr v)"

definition setattr :: "namespace \<Rightarrow> string \<Rightarrow> pyval \<Rightarrow> namespace" where
  "setattr cfg k v = AList.update k v cfg"

text \<open>\<^verbatim>\<open>{**a, **b}\<close>: the items of \<open>a\<close>, then those of \<open>b\<close>, a later value replacing an earlier one.\<close>

definition dict_merge :: "pydict \<Rightarrow> pydict \<Rightarrow> pydict" where
  "dict_merge a b = fold (\<lambda>(k, v). AList.update k v) b a"

definition dict_of_items :: "(string \<times> pyval) list \<Rightarrow> pydict" where
  "dict_of_items items = dict_merge [] items"

text \<open>A dictionary literal whose values are attributes of \<open>cfg\<close>, read from left to right.\<close>

fun attr_items :: "namespace \<Rightarrow> (string \<times> string) list \<Rightarrow> error + (string \<times> pyval) list" where
  "attr_items cfg [] = Inr []"
| "attr_items cfg ((kw, a) # rest) =
     bind_err (getattr cfg a) (\<lambda>v. bind_err (attr_items cfg rest) (\<lambda>vs. Inr ((kw, v) # vs)))"

subsection \<open>\<^verbatim>\<open>str\<close>\<close>

definition digit_char :: "nat \<Rightarrow> char" where
  "digit_char d = char_of (48 + d)"

fun str_nat :: "nat \<Rightarrow> string" where
  "str_nat n = (if n < 10 then [digit_char n] else str_nat (n div 10) @ [digit_char (n mod 10)])"

declare str_nat.simps [simp del]

definition str_int :: "int \<Rightarrow> string" where
  "str_int i = (if i < 0 then CHR ''-'' # str_nat (nat (- i)) else str_nat (nat i))"

fun join :: "string \<Rightarrow> string list \<Rightarrow> string" where
  "join sep [] = []"
| "join sep [x] = x"
| "join sep (x # y # ys) = x @ sep @ join sep (y # ys)"

text \<open>
  \<open>py_show False\<close> is \<^verbatim>\<open>str\<close> and \<open>py_show True\<close> is \<^verbatim>\<open>repr\<close>; they differ on strings only, and
  the elements of a list are shown with \<^verbatim>\<open>repr\<close>. The \<^verbatim>\<open>repr\<close> of a string is modelled for
  strings without quotes, backslashes and control characters.
\<close>

fun py_show :: "bool \<Rightarrow> pyval \<Rightarrow> string" where
  "py_show r (PInt i) = str_int i"
| "py_show r (PFloat f) = f"
| "py_show r (PStr s) = (if r then [CHR 0x27] @ s @ [CHR 0x27] else s)"
| "py_show r (PBool b) = (if b then ''True'' else ''False'')"
| "py_show r (PList vs) = ''['' @ join '', '' (map (py_show True) vs) @ '']''"
| "py_show r (PClass n) = ''<class '' @ [CHR 0x27] @ n @ [CHR 0x27] @ ''>''"

definition py_str :: "pyval \<Rightarrow> string" where
  "py_str v = py_show False v"

subsection \<open>The default configuration\<close>

text \<open>The module-level \<^verbatim>\<open>_cfg\<close>.\<close>

definition default_cfg :: namespace where
  "default_cfg =
    [(''env_lsize'', PInt 7),
     (''action_scale'', PInt 8),
     (''discrete_action'', PBool False),
     (''bottleneck'', PStr ''gsm''),
     (''bottleneck_temperature'', PFloat ''1.0''),
     (''reward_structure'', PStr ''proximity''),
     (''policy_net_arch'', PList []),
     (''pre_arch'', PList [PInt 16, PInt 16]),
     (''post_arch'', PList [PInt 16]),
     (''policy_activation'', PStr ''tanh''),
     (''action_noise'', PFloat ''0.0''),
     (''obs_type'', PStr ''direction''),
     (''entropy_samples'', PInt 400),
     (''eval_freq'', PInt 20000),
     (''total_timesteps'', PInt 5000000),
     (''reward_threshold'', PFloat ''0.95''),
     (''max_step_scale'', PFloat ''4.5''),
     (''eval_episodes'', PInt 500),
     (''fe_out_size'', PInt 16),
     (''fe_out_ratio'', PInt 4),
     (''pixel_space'', PBool False),
     (''device'', PStr ''cpu''),
     (''n_proc_alg'', PInt 1),
     (''alg'', PClass ''stable_baselines3.ppo.ppo.PPO''),
     (''n_steps'', PInt 1024),
     (''batch_size'', PInt 256),
     (''learning_rate'', PFloat ''0.0003''),
     (''single_step'', PBool False)]"

definition make_env_kwargs :: "namespace \<Rightarrow> error + pydict" where
  "make_env_kwargs cfg =
     bind_err (attr_items cfg
       [(''obs_type'', ''obs_type''),
        (''action_noise'', ''action_noise''),
        (''reward_structure'', ''reward_structure''),
        (''discrete_action'', ''discrete_action''),
        (''pixel_space'', ''pixel_space''),
        (''lsize'', ''env_lsize''),
        (''single_step'', ''single_step''),
        (''action_scale'', ''action_scale''),
        (''max_step_scale'', ''max_step_scale'')])
       (\<lambda>items. Inr (dict_of_items items))"

text \<open>
  \<^verbatim>\<open>make_policy_kwargs\<close>: the extractor class is chosen by \<^verbatim>\<open>cfg.pixel_space\<close>, read first; the
  nested dictionary is kept flat, its keys in the order they are read.
\<close>

definition make_policy_kwargs :: "namespace \<Rightarrow> error + pydict" where
  "make_policy_kwargs cfg =
     bind_err (attr_items cfg
       [(''features_extractor_class'', ''pixel_space''),
        (''out_size'', ''fe_out_size''),
        (''ratio'', ''fe_out_ratio''),
        (''bottleneck'', ''bottleneck''),
        (''pre_arch'', ''pre_arch''),
        (''post_arch'', ''post_arch''),
        (''temp'', ''bottleneck_temperature''),
        (''act'', ''policy_activation''),
        (''net_arch'', ''policy_net_arch'')])
       (\<lambda>items. Inr (dict_of_items items))"

text \<open>
  \<^verbatim>\<open>make_model\<close>, as far as it reads the configuration. The model it returns is opaque:
  what is kept of it are the arguments handed to the constructors of the environment and of
  the algorithm, which belong to the external capability.
\<close>

datatype model = Model pydict pydict pydict

definition make_model :: "namespace \<Rightarrow> error + model" where
  "make_model cfg =
     bind_err (make_env_kwargs cfg) (\<lambda>env_kwargs.
     bind_err (attr_items cfg [(''pixel_space'', ''pixel_space''), (''n_proc_alg'', ''n_proc_alg'')]) (\<lambda>_.
     bind_err (make_policy_kwargs cfg) (\<lambda>policy_kwargs.
     bind_err (attr_items cfg
       [(''alg'', ''alg''),
        (''policy'', ''pixel_space''),
        (''n_steps'', ''n_steps''),
        (''batch_size'', ''batch_size''),
        (''learning_rate'', ''learning_rate''),
        (''device'', ''device'')]) (\<lambda>args.
     Inr (Model env_kwargs policy_kwargs (dict_of_items args))))))"

section \<open>Paths and the file system\<close>

text \<open>
  A path is the list of its parts, as \<^verbatim>\<open>pathlib\<close> keeps it; an absolute path starts with the
  part \<open>''/''\<close>, and \<open>[]\<close> is the current directory. \<open>Path\<close> drops empty parts and \<^verbatim>\<open>.\<close>, and
  keeps \<^verbatim>\<open>..\<close>. (POSIX lets a path start with exactly two slashes; that root is not modelled.)
\<close>

fun split_on :: "char \<Rightarrow> string \<Rightarrow> string list" where
  "split_on c [] = [[]]"
| "split_on c (x # xs) =
     (if x = c then [] # split_on c xs
      else (case split_on c xs of [] \<Rightarrow> [[x]] | w # ws \<Rightarrow> (x # w) # ws))"

definition path_parts :: "string \<Rightarrow> path" where
  "path_parts s = filter (\<lambda>n. n \<noteq> [] \<and> n \<noteq> ''.'') (split_on (CHR ''/'') s)"

definition is_absolute :: "string \<Rightarrow> bool" where
  "is_absolute s = (case s of [] \<Rightarrow> False | c # _ \<Rightarrow> c = CHR ''/'')"

definition Path :: "string \<Rightarrow> path" where
  "Path s = (if is_absolute s then [''/''] else []) @ path_parts s"

text \<open>\<^verbatim>\<open>p / s\<close>\<close>

definition pjoin :: "path \<Rightarrow> string \<Rightarrow> path" where
  "pjoin p s = (if is_absolute s then Path s else p @ path_parts s)"

text \<open>
  What a file holds. \<open>ConfigText cfg\<close> is the text \<^verbatim>\<open>str(cfg)\<close> and \<open>Pickle cfg\<close> the pickle of
  \<open>cfg\<close>; \<open>Csv rows\<close> is a table written by pandas, one dictionary per row.
\<close>

datatype content =
    Text string
  | ConfigText namespace
  | Pickle namespace
  | Csv "pydict list"
  | Blob string

datatype entry = Dir | File content

text \<open>
  The file system is the list of its entries, keyed by path. It has no symbolic links, so the
  directories form a tree.
\<close>

type_synonym filesys = "(path \<times> entry) list"

definition stat :: "filesys \<Rightarrow> path \<Rightarrow> entry option" where
  "stat fs p = (if p = [] then Some Dir else map_of fs p)"

definition exists_path :: "filesys \<Rightarrow> path \<Rightarrow> bool" where
  "exists_path fs p = (stat fs p \<noteq> None)"

definition is_dir :: "filesys \<Rightarrow> path \<Rightarrow> bool" where
  "is_dir fs p = (stat fs p = Some Dir)"

text \<open>The entries of a directory; the absolute root is not an entry of the current directory.\<close>

definition iterdir :: "filesys \<Rightarrow> path \<Rightarrow> path list" where
  "iterdir fs root =
     remdups (filter (\<lambda>q. q \<noteq> [] \<and> q \<noteq> [''/''] \<and> butlast q = root) (map fst fs))"

text \<open>\<^verbatim>\<open>shutil.rmtree\<close>\<close>

definition rmtree :: "filesys \<Rightarrow> path \<Rightarrow> error + filesys" where
  "rmtree fs p =
     (case stat fs p of
        None \<Rightarrow> Inl (FileNotFoundError p)
      | Some (File _) \<Rightarrow> Inl (NotADirectoryError p)
      | Some Dir \<Rightarrow> Inr (filter (\<lambda>(q, _). \<not> prefix p q) fs))"

text \<open>\<^verbatim>\<open>os.makedirs(p, exist_ok=True)\<close>: \<open>makedirs_from fs p ns\<close> creates \<open>p / ns\<close> below \<open>p\<close>.\<close>

fun makedirs_from :: "filesys \<Rightarrow> path \<Rightarrow> string list \<Rightarrow> error + filesys" where
  "makedirs_from fs p [] = Inr fs"
| "makedirs_from fs p (n # ns) =
     (case stat fs (p @ [n]) of
        Some Dir \<Rightarrow> makedirs_from fs (p @ [n]) ns
      | Some (File _) \<Rightarrow> Inl (FileExistsError (p @ [n]))
      | None \<Rightarrow> makedirs_from (fs @ [(p @ [n], Dir)]) (p @ [n]) ns)"

definition makedirs :: "filesys \<Rightarrow> path \<Rightarrow> error + filesys" where
  "makedirs fs p = makedirs_from fs [] p"

text \<open>\<^verbatim>\<open>with p.open("w") as fo: fo.write(c)\<close>: the file is created or replaced.\<close>

definition open_w :: "filesys \<Rightarrow> path \<Rightarrow> content \<Rightarrow> error + filesys" where
  "open_w fs p c =
     (if p = [] then Inl (IsADirectoryError p)
      else (case stat fs (butlast p) of
              None \<Rightarrow> Inl (FileNotFoundError p)
            | Some (File _) \<Rightarrow> Inl (NotADirectoryError p)
            | Some Dir \<Rightarrow>
                (case stat fs p of
                   Some Dir \<Rightarrow> Inl (IsADirectoryError p)
                 | _ \<Rightarrow> Inr (AList.update p (File c) fs))))"

text \<open>\<^verbatim>\<open>with p.open("rb") as fo\<close>\<close>

definition open_r :: "filesys \<Rightarrow> path \<Rightarrow> error + content" where
  "open_r fs p =
     (case stat fs p of
        None \<Rightarrow> Inl (FileNotFoundError p)
      | Some Dir \<Rightarrow> Inl (IsADirectoryError p)
      | Some (File c) \<Rightarrow> Inr c)"

text \<open>
  The constructor of tensorboard's \<^verbatim>\<open>SummaryWriter\<close>: it creates the log directory with its
  parents and opens an event file in it (whose name, here fixed, carries a time stamp).
\<close>

definition summary_writer :: "filesys \<Rightarrow> path \<Rightarrow> error + filesys" where
  "summary_writer fs log_dir =
     bind_err (makedirs fs log_dir) (\<lambda>fs'.
       open_w fs' (log_dir @ [''events.out.tfevents'']) (Blob []))"

section \<open>The executor\<close>

text \<open>
  The world a job runs in: the file system and, in order, the side effects so far. An action
  returns \<open>None\<close> when it returns normally and the exception otherwise; what it did before
  the exception stays done.
\<close>

datatype event = Rmtree path | Writer path | Wrote path content | Learn path

record world =
  files :: filesys
  events :: "event list"

type_synonym action = "world \<Rightarrow> error option \<times> world"

text \<open>Statements in sequence; the first exception ends the sequence.\<close>

fun steps :: "action list \<Rightarrow> action" where
  "steps [] w = (None, w)"
| "steps (a # as) w =
     (case a w of (None, w') \<Rightarrow> steps as w' | (Some e, w') \<Rightarrow> (Some e, w'))"

definition fs_step :: "(filesys \<Rightarrow> error + filesys) \<Rightarrow> event \<Rightarrow> action" where
  "fs_step f ev w =
     (case f (files w) of
        Inl e \<Rightarrow> (Some e, w)
      | Inr fs' \<Rightarrow> (None, w\<lparr>files := fs', events := events w @ [ev]\<rparr>))"

text \<open>
  The external training capability: the construction of the environments, of the callback
  and of the model, and \<^verbatim>\<open>model.learn\<close>. It is given the configuration and the log directory,
  and may write to the file system (event logs, checkpoints) and raise.
\<close>

type_synonym learner = "namespace \<Rightarrow> path \<Rightarrow> filesys \<Rightarrow> error option \<times> filesys"

text \<open>The fields \<^verbatim>\<open>do_run\<close> reads between the configuration dumps and \<^verbatim>\<open>model.learn\<close>.\<close>

definition prepare_training :: "namespace \<Rightarrow> error + model" where
  "prepare_training cfg =
     bind_err (make_env_kwargs cfg) (\<lambda>env_kwargs.
     bind_err (attr_items cfg
       [(''pixel_space'', ''pixel_space''),
        (''n_eval_episodes'', ''eval_episodes''),
        (''eval_freq'', ''eval_freq''),
        (''entropy_samples'', ''entropy_samples'')]) (\<lambda>_.
     bind_err (make_model cfg) (\<lambda>model.
     bind_err (getattr cfg ''total_timesteps'') (\<lambda>_.
     Inr model))))"

definition train :: "learner \<Rightarrow> namespace \<Rightarrow> path \<Rightarrow> action" where
  "train learn cfg log_dir w =
     (case prepare_training cfg of
        Inl e \<Rightarrow> (Some e, w)
      | Inr _ \<Rightarrow>
          (case learn cfg log_dir (files w) of
             (r, fs') \<Rightarrow> (r, w\<lparr>files := fs', events := events w @ [Learn log_dir]\<rparr>)))"

definition write_step :: "path \<Rightarrow> content \<Rightarrow> action" where
  "write_step p c = fs_step (\<lambda>fs. open_w fs p c) (Wrote p c)"

text \<open>The statements of \<^verbatim>\<open>do_run\<close> after the test of the marker, one action each.\<close>

definition do_run_body :: "learner \<Rightarrow> path \<Rightarrow> namespace \<Rightarrow> action list" where
  "do_run_body learn log_dir cfg =
     [(\<lambda>w. if exists_path (files w) log_dir
            then fs_step (\<lambda>fs. rmtree fs log_dir) (Rmtree log_dir) w
            else (None, w)),
      fs_step (\<lambda>fs. summary_writer fs log_dir) (Writer log_dir),
      write_step (log_dir @ [''config.txt'']) (ConfigText cfg),
      write_step (log_dir @ [''config.pkl'']) (Pickle cfg),
      train learn cfg log_dir,
      write_step (log_dir @ [''completed'']) (Text [])]"

definition run_dir :: "path \<Rightarrow> nat \<Rightarrow> path" where
  "run_dir base_dir idx = base_dir @ [''run-'' @ str_nat idx]"

definition do_run :: "learner \<Rightarrow> path \<Rightarrow> namespace \<Rightarrow> nat \<Rightarrow> action" where
  "do_run learn base_dir cfg idx w =
     (let log_dir = run_dir base_dir idx in
      if exists_path (files w) (log_dir @ [''completed'']) then (None, w)
      else steps (do_run_body learn log_dir cfg) w)"

text \<open>A delayed call \<^verbatim>\<open>delayed(do_run)(log_dir, cfg, i)\<close>.\<close>

type_synonym job = "path \<times> namespace \<times> nat"

definition getattrs :: "namespace \<Rightarrow> string list \<Rightarrow> error + pyval list" where
  "getattrs cfg props =
     bind_err (attr_items cfg (map (\<lambda>a. (a, a)) props)) (\<lambda>items. Inr (map snd items))"

definition trial_name :: "namespace \<Rightarrow> string list \<Rightarrow> error + string" where
  "trial_name cfg name_props =
     bind_err (getattrs cfg name_props) (\<lambda>vs. Inr (join ''_'' (map py_str vs)))"

definition run_trials :: "path \<Rightarrow> namespace \<Rightarrow> string list \<Rightarrow> int \<Rightarrow> error + job list" where
  "run_trials base_dir cfg name_props num_trials =
     bind_err (trial_name cfg name_props) (\<lambda>name.
       let log_dir = pjoin base_dir name
       in Inr (map (\<lambda>i. (log_dir, cfg, i)) [0..<nat num_trials]))"

text \<open>
  \<^verbatim>\<open>importlib.import_module(module_name).generate_configs()\<close> is given by \<open>modules\<close>: the
  override-sets of each module that can be imported.
\<close>

type_synonym modules = "string \<Rightarrow> pydict list option"

fun config_jobs :: "path \<Rightarrow> int \<Rightarrow> pydict list \<Rightarrow> error + job list" where
  "config_jobs out_path num_trials [] = Inr []"
| "config_jobs out_path num_trials (config # rest) =
     (let final_config = dict_merge default_cfg config;
          cfg = final_config
      in bind_err (run_trials out_path cfg (map fst config) num_trials) (\<lambda>js.
         bind_err (config_jobs out_path num_trials rest) (\<lambda>js'. Inr (js @ js'))))"

definition rstrip :: "char \<Rightarrow> string \<Rightarrow> string" where
  "rstrip c s = rev (dropWhile (\<lambda>x. x = c) (rev s))"

definition replace_char :: "char \<Rightarrow> char \<Rightarrow> string \<Rightarrow> string" where
  "replace_char a b s = map (\<lambda>x. if x = a then b else x) s"

definition drop_last3 :: "string \<Rightarrow> string" where
  "drop_last3 s = take (length s - 3) s"

fun build_jobs :: "modules \<Rightarrow> path \<Rightarrow> int \<Rightarrow> string list \<Rightarrow> error + job list" where
  "build_jobs modules out_dir num_trials [] = Inr []"
| "build_jobs modules out_dir num_trials (config_path # rest) =
     (let config_name = drop_last3 (last (split_on (CHR ''/'') config_path));
          out_path = pjoin out_dir config_name;
          module_name = drop_last3 (replace_char (CHR ''/'') (CHR ''.'') (rstrip (CHR ''/'') config_path))
      in case modules module_name of
           None \<Rightarrow> Inl (ModuleNotFoundError module_name)
         | Some configs \<Rightarrow>
             bind_err (config_jobs out_path num_trials configs) (\<lambda>js.
             bind_err (build_jobs modules out_dir num_trials rest) (\<lambda>js'. Inr (js @ js'))))"

definition run_job :: "learner \<Rightarrow> job \<Rightarrow> action" where
  "run_job learn j = (case j of (log_dir, cfg, i) \<Rightarrow> do_run learn log_dir cfg i)"

text \<open>
  joblib's \<^verbatim>\<open>Parallel(n_jobs)\<close>, which refuses \<^verbatim>\<open>n_jobs == 0\<close>. The jobs share nothing but the file
  system, where each writes below its own directory; the model runs them one after the other,
  in the order they were submitted.
\<close>

definition parallel :: "int \<Rightarrow> action list \<Rightarrow> action" where
  "parallel n_jobs acts w =
     (if n_jobs = 0 then (Some (ValueError ''n_jobs == 0 in Parallel has no meaning''), w)
      else steps acts w)"

definition run_experiments ::
  "learner \<Rightarrow> modules \<Rightarrow> string list \<Rightarrow> int \<Rightarrow> int \<Rightarrow> path \<Rightarrow> action" where
  "run_experiments learn modules config_paths num_trials n_jobs out_dir w =
     (case build_jobs modules out_dir num_trials config_paths of
        Inl e \<Rightarrow> (Some e, w)
      | Inr jobs \<Rightarrow>
          if length jobs = 1 \<or> n_jobs = 1 then steps (map (run_job learn) jobs) w
          else parallel n_jobs (map (run_job learn) jobs) w)"




text \<open>The job directory \<open>d\<close> holds no completion marker.\<close>

definition marker_free :: "path \<Rightarrow> world \<Rightarrow> bool" where
  "marker_free d w = (\<not> exists_path (files w) (d @ [''completed'']))"

text \<open>A rendered value that is one path component and has no separator of names in it.\<close>

definition plain :: "string \<Rightarrow> bool" where
  "plain s = (s \<noteq> [] \<and> s \<noteq> ''.'' \<and> CHR ''_'' \<notin> set s \<and> CHR ''/'' \<notin> set s)"

section \<open>The artifact scanner\<close>

definition depth :: "filesys \<Rightarrow> nat" where
  "depth fs = Max (insert 0 (set (map (length \<circ> fst) fs)))"

text \<open>
  \<^verbatim>\<open>expand_paths\<close>. Python collects the entries of the directory in a set, whose iteration order
  is not specified; the model visits them in the order of the listing.
\<close>

text \<open>Every entry of a file system lies in a directory.\<close>

definition parents_are_dirs :: "filesys \<Rightarrow> bool" where
  "parents_are_dirs fs = (\<forall>p \<in> fst ` set fs. is_dir fs (butlast p))"

function expand_paths :: "filesys \<Rightarrow> path \<Rightarrow> path list" where
  "expand_paths fs root =
     (if \<not> is_dir fs root then []
      else (let contents = iterdir fs root;
                names = map last contents;
                paths = (if card ({''best.pt'', ''config.pkl''} \<inter> set names) = 2 then [root] else [])
            in paths @ concat (map (expand_paths fs) contents)))"
  by pat_completeness auto
termination
proof (relation "measure (\<lambda>(fs, root). Suc (depth fs) - length root)")
  show "wf (measure (\<lambda>(fs, root). Suc (depth fs) - length root))" by simp
next
  fix fs :: filesys and root c :: path and contents :: "path list"
  assume "contents = iterdir fs root" and "c \<in> set contents"
  then have c: "c \<in> fst ` set fs" "c \<noteq> []" "butlast c = root"
    by (auto simp: iterdir_def)
  from c(2,3) have len: "length c = Suc (length root)"
    by (cases c rule: rev_cases) auto
  from c(1) obtain e where "(c, e) \<in> set fs" by auto
  then have "length c \<in> set (map (length \<circ> fst) fs)" by force
  then have "length c \<le> depth fs" unfolding depth_def by (simp add: Max_ge)
  with len show "((fs, c), (fs, root)) \<in> measure (\<lambda>(fs, root). Suc (depth fs) - length root)"
    by simp
qed

declare expand_paths.simps [simp del]

text \<open>A directory with both files of an artifact, by the names of its entries.\<close>

definition is_artifact :: "filesys \<Rightarrow> path \<Rightarrow> bool" where
  "is_artifact fs p = (exists_path fs (p @ [''best.pt'']) \<and> exists_path fs (p @ [''config.pkl'']))"

text \<open>
  A path at or below \<open>root\<close> (absolute paths are not below the current directory), and the
  paths reached from \<open>root\<close> through directories only.
\<close>

definition inside :: "path \<Rightarrow> path \<Rightarrow> bool" where
  "inside root p = (prefix root p \<and> \<not> (root = [] \<and> prefix [''/''] p))"

definition below :: "filesys \<Rightarrow> path \<Rightarrow> path set" where
  "below fs root = {p. inside root p \<and> (\<forall>q. prefix root q \<longrightarrow> prefix q p \<longrightarrow> is_dir fs q)}"


section \<open>The metric extractor\<close>

definition patch_old_configs :: "namespace \<Rightarrow> namespace" where
  "patch_old_configs cfg0 =
     (let cfg1 = (if \<not> hasattr cfg0 ''obs_type'' then setattr cfg0 ''obs_type'' (PStr ''vector'') else cfg0);
          cfg2 = (if \<not> hasattr cfg1 ''policy_activation''
                  then setattr cfg1 ''policy_activation'' (PStr ''tanh'') else cfg1);
          cfg3 = (if \<not> hasattr cfg2 ''bottleneck_temperature''
                  then setattr cfg2 ''action_noise'' (PFloat ''0.0'') else cfg2);
          cfg4 = (if \<not> hasattr cfg3 ''bottleneck_temperature''
                  then setattr cfg3 ''bottleneck_temperature'' (PFloat ''1.0'') else cfg3);
          cfg5 = (if \<not> hasattr cfg4 ''reward_structure''
                  then setattr cfg4 ''reward_structure'' (PStr ''proximity'') else cfg4);
          cfg6 = (if \<not> hasattr cfg5 ''n_proc_alg'' then setattr cfg5 ''n_proc_alg'' (PInt 1) else cfg5);
          cfg7 = (if \<not> hasattr cfg6 ''discrete_action''
                  then setattr cfg6 ''discrete_action'' (PBool False) else cfg6)
      in cfg7)"

text \<open>
  What the evaluation of a trained policy yields: the mean episode length, the success rate,
  the dictionary of \<^verbatim>\<open>util.get_metrics\<close>, the bottleneck usages and the one-hot vectors.
\<close>

record metrics =
  m_steps :: pyval
  m_success_rate :: pyval
  m_entropies :: pydict
  m_usages :: pyval
  m_vectors :: pyval

text \<open>
  The external evaluation capability: it builds the environment and the policy, loads the
  state read from \<^verbatim>\<open>best.pt\<close> and runs \<^verbatim>\<open>cfg_test.n_test_episodes\<close> episodes, discretized or not.
\<close>

type_synonym evaluator = "namespace \<Rightarrow> model \<Rightarrow> content \<Rightarrow> bool \<Rightarrow> error + metrics"

definition pkl_load :: "path \<Rightarrow> content \<Rightarrow> error + namespace" where
  "pkl_load p c = (case c of Pickle cfg \<Rightarrow> Inr cfg | _ \<Rightarrow> Inl (UnpicklingError p))"

text \<open>
  \<^verbatim>\<open>collect_metrics\<close>; \<open>sample_id\<close> is the value \<^verbatim>\<open>str(uuid.uuid4())\<close> takes in this call. The result
  is the one row of the data frame.
\<close>

definition collect_metrics ::
  "evaluator \<Rightarrow> filesys \<Rightarrow> path \<Rightarrow> path \<Rightarrow> bool \<Rightarrow> string \<Rightarrow> error + pydict" where
  "collect_metrics evaluate fs path out_path discretize sample_id =
     bind_err (open_r fs (path @ [''config.pkl''])) (\<lambda>fo.
     bind_err (pkl_load (path @ [''config.pkl'']) fo) (\<lambda>cfg0.
     let cfg = patch_old_configs cfg0 in
     bind_err (make_env_kwargs cfg) (\<lambda>env_kwargs.
     bind_err (make_model cfg) (\<lambda>model.
     bind_err (open_r fs (path @ [''best.pt''])) (\<lambda>state.
     bind_err (evaluate cfg model state discretize) (\<lambda>m.
     Inr (dict_of_items
       ([(''uuid'', PStr sample_id),
         (''steps'', m_steps m),
         (''success_rate'', m_success_rate m)]
        @ m_entropies m
        @ [(''discretize'', PBool discretize),
           (''usages'', m_usages m),
           (''vectors'', m_vectors m)]
        @ cfg))))))))"

section \<open>The aggregator\<close>

text \<open>The calls of a job list in the order of submission; the first exception ends them.\<close>

fun run_all :: "('a \<Rightarrow> error + 'b) \<Rightarrow> 'a list \<Rightarrow> error + 'b list" where
  "run_all f [] = Inr []"
| "run_all f (x # xs) = bind_err (f x) (\<lambda>y. bind_err (run_all f xs) (\<lambda>ys. Inr (y # ys)))"

definition parallel_map :: "int \<Rightarrow> ('a \<Rightarrow> error + 'b) \<Rightarrow> 'a list \<Rightarrow> error + 'b list" where
  "parallel_map n_jobs f jobs =
     (if n_jobs = 0 then Inl (ValueError ''n_jobs == 0 in Parallel has no meaning'')
      else run_all f jobs)"

text \<open>\<^verbatim>\<open>pd.concat(results, ignore_index=True)\<close> of one-row frames; pandas refuses an empty list.\<close>

definition pd_concat :: "pydict list \<Rightarrow> error + pydict list" where
  "pd_concat results =
     (if results = [] then Inl (ValueError ''No objects to concatenate'') else Inr results)"

definition discovered :: "filesys \<Rightarrow> string list \<Rightarrow> path list" where
  "discovered fs path_strs = concat (map (\<lambda>p. expand_paths fs (Path p)) path_strs)"

definition metric_jobs :: "path list \<Rightarrow> (path \<times> bool) list" where
  "metric_jobs paths = concat (map (\<lambda>d. map (\<lambda>p. (p, d)) paths) [True, False])"

text \<open>
  \<^verbatim>\<open>aggregate_results\<close>; \<open>uuid4 i\<close> is the identifier drawn in the \<open>i\<close>-th job.
\<close>

definition aggregate_results ::
  "evaluator \<Rightarrow> (nat \<Rightarrow> string) \<Rightarrow> string list \<Rightarrow> path \<Rightarrow> int \<Rightarrow> action" where
  "aggregate_results evaluate uuid4 path_strs out_dir n_jobs w =
     (let paths = discovered (files w) path_strs;
          jobs = metric_jobs paths
      in case parallel_map n_jobs
                (\<lambda>(i, p, d). collect_metrics evaluate (files w) p out_dir d (uuid4 i))
                (enumerate 0 jobs) of
           Inl e \<Rightarrow> (Some e, w)
         | Inr results \<Rightarrow>
             (case pd_concat results of
                Inl e \<Rightarrow> (Some e, w)
              | Inr df \<Rightarrow> write_step (out_dir @ [''data.csv'']) (Csv df) w))"

section \<open>The summarizer\<close>

record args =
  stddev :: bool
  stderr :: bool
  latex :: bool

text \<open>
  What the summarizer asks of pandas and of \<^verbatim>\<open>analyze\<close>: grouping a frame by columns, the
  reduction of the groups named by \<open>op\<close>, restricted to \<open>fields\<close> and rounded, and the two
  renderings of a table.
\<close>

record ('g, 't) pandas =
  groupby :: "pydict list \<Rightarrow> string list \<Rightarrow> error + 'g"
  reduce_by :: "string \<Rightarrow> 'g \<Rightarrow> string list \<Rightarrow> error + 't"
  to_latex :: "'t \<Rightarrow> string"
  to_string :: "'t \<Rightarrow> string"

definition read_csv :: "filesys \<Rightarrow> path \<Rightarrow> error + pydict list" where
  "read_csv fs p =
     bind_err (open_r fs p) (\<lambda>c.
       case c of Csv rows \<Rightarrow> Inr rows | _ \<Rightarrow> Inl (ExternalError ''pandas.errors.ParserError''))"

text \<open>The choice of the reduction in \<^verbatim>\<open>main\<close>.\<close>

definition reduction :: "args \<Rightarrow> error + string" where
  "reduction a =
     (if stddev a then Inr ''std''
      else if stderr a then Inl NotImplementedError
      else Inr ''median'')"

text \<open>\<^verbatim>\<open>main\<close> of the summarizer; its value is the text it prints.\<close>

definition main :: "('g, 't) pandas \<Rightarrow> args \<Rightarrow> path \<Rightarrow> filesys \<Rightarrow> error + string" where
  "main pd a path fs =
     bind_err (read_csv fs (path @ [''data.csv''])) (\<lambda>df.
     bind_err (groupby pd df [''discretize'', ''action_scale'']) (\<lambda>groups.
     let fields = [''steps'', ''fractional'', ''linf''] in
     bind_err (reduction a) (\<lambda>op.
     bind_err (reduce_by pd op groups fields) (\<lambda>table.
     Inr (if latex a then to_latex pd table else to_string pd table)))))"

section \<open>Example inputs\<close>

text \<open>A trainer that saves a checkpoint and returns, and one that raises.\<close>

definition learn_ok :: learner where
  "learn_ok cfg d fs = (None, AList.update (d @ [''best.pt'']) (File (Blob [])) fs)"

definition learn_fail :: learner where
  "learn_fail cfg d fs = (Some (ExternalError ''RuntimeError''), fs)"

definition w_empty :: world where
  "w_empty = \<lparr>files = [], events = []\<rparr>"

text \<open>
  The world after the first job of \<open>default_cfg\<close> below \<^verbatim>\<open>log\<close> has run, and the world in which it
  was interrupted when training was about to start.
\<close>

definition w_done :: world where
  "w_done =
     \<lparr>files = [([''log''], Dir), ([''log'', ''run-0''], Dir),
        ([''log'', ''run-0'', ''events.out.tfevents''], File (Blob [])),
        ([''log'', ''run-0'', ''config.txt''], File (ConfigText default_cfg)),
        ([''log'', ''run-0'', ''config.pkl''], File (Pickle default_cfg)),
        ([''log'', ''run-0'', ''best.pt''], File (Blob [])),
        ([''log'', ''run-0'', ''completed''], File (Text []))],
      events = [Writer [''log'', ''run-0''],
        Wrote [''log'', ''run-0'', ''config.txt''] (ConfigText default_cfg),
        Wrote [''log'', ''run-0'', ''config.pkl''] (Pickle default_cfg),
        Learn [''log'', ''run-0''],
        Wrote [''log'', ''run-0'', ''completed''] (Text [])]\<rparr>"

definition w_partial :: world where
  "w_partial =
     \<lparr>files = [([''log''], Dir), ([''log'', ''run-0''], Dir),
        ([''log'', ''run-0'', ''events.out.tfevents''], File (Blob [])),
        ([''log'', ''run-0'', ''config.txt''], File (ConfigText default_cfg)),
        ([''log'', ''run-0'', ''config.pkl''], File (Pickle default_cfg))],
      events = [Writer [''log'', ''run-0''],
        Wrote [''log'', ''run-0'', ''config.txt''] (ConfigText default_cfg),
        Wrote [''log'', ''run-0'', ''config.pkl''] (Pickle default_cfg)]\<rparr>"


definition cfg_lr :: namespace where
  "cfg_lr = dict_merge default_cfg [(''learning_rate'', PFloat ''0.01'')]"








text \<open>
  A job directory left by an interrupted run of another configuration, with a stale
  checkpoint and a stale subdirectory, beside the directory of a completed job; and the world
  after the job of \<open>default_cfg\<close> has run there.
\<close>

definition w_stale :: world where
  "w_stale =
     \<lparr>files = [([''log''], Dir), ([''log'', ''run-0''], Dir),
        ([''log'', ''run-0'', ''config.pkl''], File (Pickle cfg_lr)),
        ([''log'', ''run-0'', ''checkpoint.pt''], File (Blob ''stale'')),
        ([''log'', ''run-0'', ''old''], Dir),
        ([''log'', ''run-0'', ''old'', ''best.pt''], File (Blob ''stale'')),
        ([''log'', ''run-1''], Dir),
        ([''log'', ''run-1'', ''completed''], File (Text []))],
      events = []\<rparr>"

definition w_redone :: world where
  "w_redone =
     \<lparr>files = [([''log''], Dir), ([''log'', ''run-1''], Dir),
        ([''log'', ''run-1'', ''completed''], File (Text [])),
        ([''log'', ''run-0''], Dir),
        ([''log'', ''run-0'', ''events.out.tfevents''], File (Blob [])),
        ([''log'', ''run-0'', ''config.txt''], File (ConfigText default_cfg)),
        ([''log'', ''run-0'', ''config.pkl''], File (Pickle default_cfg)),
        ([''log'', ''run-0'', ''best.pt''], File (Blob [])),
        ([''log'', ''run-0'', ''completed''], File (Text []))],
      events = [Rmtree [''log'', ''run-0''],
        Writer [''log'', ''run-0''],
        Wrote [''log'', ''run-0'', ''config.txt''] (ConfigText default_cfg),
        Wrote [''log'', ''run-0'', ''config.pkl''] (Pickle default_cfg),
        Learn [''log'', ''run-0''],
        Wrote [''log'', ''run-0'', ''completed''] (Text [])]\<rparr>"

text \<open>
  A tree of results: artifacts at depths one, two and three below \<^verbatim>\<open>log\<close>, one of them inside
  another, and three decoys, which miss \<^verbatim>\<open>config.pkl\<close>, miss \<^verbatim>\<open>best.pt\<close>, or are a file.
\<close>

definition fs_tree :: filesys where
  "fs_tree =
     [([''log''], Dir),
      ([''log'', ''a''], Dir),
      ([''log'', ''a'', ''best.pt''], File (Blob [])),
      ([''log'', ''a'', ''config.pkl''], File (Pickle default_cfg)),
      ([''log'', ''a'', ''nested''], Dir),
      ([''log'', ''a'', ''nested'', ''best.pt''], File (Blob [])),
      ([''log'', ''a'', ''nested'', ''config.pkl''], File (Pickle default_cfg)),
      ([''log'', ''b''], Dir),
      ([''log'', ''b'', ''best.pt''], File (Blob [])),
      ([''log'', ''c''], Dir),
      ([''log'', ''c'', ''config.pkl''], File (Pickle default_cfg)),
      ([''log'', ''c'', ''d''], Dir),
      ([''log'', ''c'', ''d'', ''e''], Dir),
      ([''log'', ''c'', ''d'', ''e'', ''config.pkl''], File (Pickle default_cfg)),
      ([''log'', ''c'', ''d'', ''e'', ''best.pt''], File (Blob [])),
      ([''log'', ''f''], File (Text []))]"

text \<open>
  A configuration pickled before \<^verbatim>\<open>action_noise\<close> existed, and one pickled before
  \<^verbatim>\<open>bottleneck_temperature\<close> existed whose \<^verbatim>\<open>action_noise\<close> is \<^verbatim>\<open>0.5\<close>.
\<close>

definition cfg_old :: namespace where
  "cfg_old = AList.delete ''action_noise'' default_cfg"

definition cfg_noisy :: namespace where
  "cfg_noisy = AList.delete ''bottleneck_temperature'' (AList.update ''action_noise'' (PFloat ''0.5'') default_cfg)"

text \<open>An experiment module whose only override-set is empty.\<close>

definition modules_none :: modules where
  "modules_none m = (if m = ''configs.none'' then Some [[]] else None)"

text \<open>
  A stand-in for pandas whose table is the name of the reduction that was applied, and a
  results directory with a table.
\<close>

definition pd_stub :: "(pydict list, string) pandas" where
  "pd_stub = \<lparr>groupby = (\<lambda>df cols. Inr df), reduce_by = (\<lambda>op g fields. Inr op),
     to_latex = (\<lambda>t. ''latex: '' @ t), to_string = (\<lambda>t. t)\<rparr>"

definition fs_csv :: filesys where
  "fs_csv = [([''data.csv''], File (Csv [[(''discretize'', PBool True), (''action_scale'', PInt 8),
      (''steps'', PFloat ''12.5''), (''fractional'', PFloat ''0.5''), (''linf'', PFloat ''0.25'')]]))]"

text \<open>
  An evaluator that returns fixed metrics, identifiers that never repeat, a tree in which the
  \<^verbatim>\<open>config.pkl\<close> of the first artifact is not a pickle, and an artifact of the old configuration.
\<close>

definition eval_ok :: evaluator where
  "eval_ok cfg model state discretize =
     Inr \<lparr>m_steps = PFloat ''12.5'', m_success_rate = PFloat ''1.0'',
          m_entropies = [(''fractional'', PFloat ''0.5''), (''linf'', PFloat ''0.25'')],
          m_usages = PList [], m_vectors = PList []\<rparr>"

definition uuid_ex :: "nat \<Rightarrow> string" where
  "uuid_ex i = replicate (Suc i) (CHR ''u'')"

definition fs_bad :: filesys where
  "fs_bad =
     [([''log''], Dir),
      ([''log'', ''a''], Dir),
      ([''log'', ''a'', ''best.pt''], File (Blob [])),
      ([''log'', ''a'', ''config.pkl''], File (Text ''truncated'')),
      ([''log'', ''b''], Dir),
      ([''log'', ''b'', ''best.pt''], File (Blob [])),
      ([''log'', ''b'', ''config.pkl''], File (Pickle default_cfg))]"

definition fs_old :: filesys where
  "fs_old =
     [([''old''], Dir),
      ([''old'', ''best.pt''], File (Blob [])),
      ([''old'', ''config.pkl''], File (Pickle cfg_old))]"

definition w_tree :: world where
  "w_tree = \<lparr>files = fs_tree, events = []\<rparr>"

definition w_bad :: world where
  "w_bad = \<lparr>files = fs_bad, events = []\<rparr>"

section \<open>Properties of the executor\<close>


lemma steps_append:
  "steps (as @ bs) w = (case steps as w of (None, w') \<Rightarrow> steps bs w' | (Some e, w') \<Rightarrow> (Some e, w'))"
  by (induction as arbitrary: w) (auto split: prod.splits option.splits)

lemma steps_preserve:
  assumes "\<And>a v r v'. a \<in> set as \<Longrightarrow> I v \<Longrightarrow> a v = (r, v') \<Longrightarrow> I v'"
    and "I w" and "steps as w = (r, w')"
  shows "I w'"
  using assms
proof (induction as arbitrary: w)
  case Nil
  then show ?case by simp
next
  case (Cons a as)
  obtain r1 w1 where a: "a w = (r1, w1)" by (cases "a w")
  have I1: "I w1" using Cons.prems(1)[of a w r1 w1] Cons.prems(2) a by simp
  show ?case
  proof (cases r1)
    case None
    with a Cons.prems(3) have "steps as w1 = (r, w')" by simp
    with Cons.IH[of w1] Cons.prems(1) I1 show ?thesis by auto
  next
    case (Some e)
    with a Cons.prems(3) have "w' = w1" by simp
    with I1 show ?thesis by simp
  qed
qed

lemma map_of_filter_key:
  "map_of (filter (\<lambda>(q, _). P q) fs) p = (if P p then map_of fs p else None)"
  by (induction fs) auto

lemma stat_rmtree:
  "rmtree fs d = Inr fs' \<Longrightarrow> p \<noteq> [] \<Longrightarrow> stat fs' p = (if prefix d p then None else stat fs p)"
  by (auto simp: rmtree_def stat_def map_of_filter_key split: option.splits entry.splits if_splits)

lemma makedirs_from_other:
  "makedirs_from fs p ns = Inr fs' \<Longrightarrow> \<not> prefix q (p @ ns) \<Longrightarrow> map_of fs' q = map_of fs q"
proof (induction ns arbitrary: fs p)
  case Nil
  then show ?case by simp
next
  case (Cons n ns)
  have np: "\<not> prefix q ((p @ [n]) @ ns)" using Cons.prems(2) by simp
  have neq: "q \<noteq> p @ [n]" using Cons.prems(2) by auto
  show ?case
  proof (cases "stat fs (p @ [n])")
    case None
    with Cons.prems(1) have "makedirs_from (fs @ [(p @ [n], Dir)]) (p @ [n]) ns = Inr fs'" by simp
    from Cons.IH[OF this np] neq show ?thesis by (auto simp: map_add_def split: option.splits)
  next
    case (Some e)
    with Cons.prems(1) have "e = Dir" and "makedirs_from fs (p @ [n]) ns = Inr fs'"
      by (cases e; simp)+
    from Cons.IH[OF this(2) np] show ?thesis .
  qed
qed

lemma stat_open_w:
  "open_w fs p c = Inr fs' \<Longrightarrow> stat fs' q = (if q = p then Some (File c) else stat fs q)"
  by (auto simp: open_w_def stat_def update_conv' split: option.splits entry.splits if_splits)

lemma open_w_nonempty: "open_w fs p c = Inr fs' \<Longrightarrow> p \<noteq> []"
  by (auto simp: open_w_def split: if_splits)

lemma stat_summary_writer:
  assumes "summary_writer fs d = Inr fs'" and "\<not> prefix q d" and "q \<noteq> d @ [''events.out.tfevents'']"
  shows "stat fs' q = stat fs q"
proof -
  from assms(1) obtain fs1 where m: "makedirs fs d = Inr fs1"
    and o: "open_w fs1 (d @ [''events.out.tfevents'']) (Blob []) = Inr fs'"
    by (auto simp: summary_writer_def bind_err_def split: sum.splits)
  from m assms(2) have "map_of fs1 q = map_of fs q"
    using makedirs_from_other[of fs "[]" d fs1 q] by (simp add: makedirs_def)
  then have "stat fs1 q = stat fs q" by (simp add: stat_def)
  with stat_open_w[OF o, of q] assms(3) show ?thesis by simp
qed


lemma fs_step_cases:
  assumes "fs_step f ev w = (r, w')"
  obtains (fail) e where "f (files w) = Inl e" "r = Some e" "w' = w"
        | (ok) fs' where "f (files w) = Inr fs'" "r = None" "w' = w\<lparr>files := fs', events := events w @ [ev]\<rparr>"
  using assms by (auto simp: fs_step_def split: sum.splits)

lemma write_step_cases:
  assumes "write_step p c w = (r, w')"
  obtains (fail) e where "r = Some e" "w' = w"
        | (ok) "r = None" "stat (files w') p = Some (File c)" "\<And>q. q \<noteq> p \<Longrightarrow> stat (files w') q = stat (files w) q"
           "events w' = events w @ [Wrote p c]"
  using assms unfolding write_step_def
  by (elim fs_step_cases) (auto simp: stat_open_w)

lemma rmtree_step_free:
  assumes "(if exists_path (files w) d then fs_step (\<lambda>fs. rmtree fs d) (Rmtree d) w else (None, w)) = (r, w')"
    and "marker_free d w"
  shows "marker_free d w'"
proof (cases "exists_path (files w) d")
  case False
  with assms show ?thesis by simp
next
  case True
  with assms(1) have "fs_step (\<lambda>fs. rmtree fs d) (Rmtree d) w = (r, w')" by simp
  then show ?thesis
  proof (cases rule: fs_step_cases)
    case (fail e)
    with assms(2) show ?thesis by simp
  next
    case (ok fs')
    from stat_rmtree[OF ok(1), of "d @ [''completed'']"] ok(3)
    show ?thesis by (simp add: marker_free_def exists_path_def)
  qed
qed

lemma writer_step_free:
  assumes "fs_step (\<lambda>fs. summary_writer fs d) (Writer d) w = (r, w')" and "marker_free d w"
  shows "marker_free d w'"
  using assms(1)
proof (cases rule: fs_step_cases)
  case (fail e)
  with assms(2) show ?thesis by simp
next
  case (ok fs')
  from stat_summary_writer[OF ok(1), of "d @ [''completed'']"] ok(3) assms(2)
  show ?thesis by (simp add: marker_free_def exists_path_def)
qed

lemma write_step_free:
  assumes "write_step (d @ [n]) c w = (r, w')" and "marker_free d w" and "n \<noteq> ''completed''"
  shows "marker_free d w'"
  using assms(1)
proof (cases rule: write_step_cases)
  case (fail e)
  with assms(2) show ?thesis by simp
next
  case ok
  from ok(3)[of "d @ [''completed'']"] assms(2,3)
  show ?thesis by (simp add: marker_free_def exists_path_def)
qed

lemma train_free:
  assumes "train learn cfg d w = (r, w')" and "marker_free d w"
    and "\<forall>fs r fs'. learn cfg d fs = (r, fs') \<longrightarrow> \<not> exists_path fs (d @ [''completed''])
           \<longrightarrow> \<not> exists_path fs' (d @ [''completed''])"
  shows "marker_free d w'"
proof (cases "prepare_training cfg")
  case (Inl e)
  with assms(1,2) show ?thesis by (simp add: train_def)
next
  case (Inr m)
  obtain r1 fs1 where l: "learn cfg d (files w) = (r1, fs1)" by (cases "learn cfg d (files w)")
  with Inr assms(1) have "files w' = fs1" by (auto simp: train_def)
  with assms(2,3) l show ?thesis by (auto simp: marker_free_def)
qed

lemma take5_body:
  "take 5 (do_run_body learn d cfg) =
     [(\<lambda>w. if exists_path (files w) d then fs_step (\<lambda>fs. rmtree fs d) (Rmtree d) w else (None, w)),
      fs_step (\<lambda>fs. summary_writer fs d) (Writer d),
      write_step (d @ [''config.txt'']) (ConfigText cfg),
      write_step (d @ [''config.pkl'']) (Pickle cfg),
      train learn cfg d]"
  by (simp add: do_run_body_def)

lemma body_split:
  "do_run_body learn d cfg = take 5 (do_run_body learn d cfg) @ [write_step (d @ [''completed'']) (Text [])]"
  by (simp add: do_run_body_def)

lemma length_body: "length (do_run_body learn d cfg) = 6"
  by (simp add: do_run_body_def)

lemma body5_free:
  assumes "a \<in> set (take 5 (do_run_body learn d cfg))" and "marker_free d v" and "a v = (r, v')"
    and "\<forall>fs r fs'. learn cfg d fs = (r, fs') \<longrightarrow> \<not> exists_path fs (d @ [''completed''])
           \<longrightarrow> \<not> exists_path fs' (d @ [''completed''])"
  shows "marker_free d v'"
proof -
  from assms(1) consider
      "a = (\<lambda>w. if exists_path (files w) d then fs_step (\<lambda>fs. rmtree fs d) (Rmtree d) w else (None, w))"
    | "a = fs_step (\<lambda>fs. summary_writer fs d) (Writer d)"
    | "a = write_step (d @ [''config.txt'']) (ConfigText cfg)"
    | "a = write_step (d @ [''config.pkl'']) (Pickle cfg)"
    | "a = train learn cfg d"
    unfolding take5_body by auto
  then show ?thesis
  proof cases
    case 1
    with assms(3) rmtree_step_free[of v d r v'] assms(2) show ?thesis by simp
  next
    case 2
    with assms(3) writer_step_free[of d v r v'] assms(2) show ?thesis by simp
  next
    case 3
    with assms(3) write_step_free[of d "''config.txt''" _ v r v'] assms(2) show ?thesis by simp
  next
    case 4
    with assms(3) write_step_free[of d "''config.pkl''" _ v r v'] assms(2) show ?thesis by simp
  next
    case 5
    with assms(3) train_free[of learn cfg d v r v'] assms(2,4) show ?thesis by simp
  qed
qed

lemma marker_needs_all_steps:
  assumes free: "marker_free d w"
    and frame: "\<forall>fs r fs'. learn cfg d fs = (r, fs') \<longrightarrow> \<not> exists_path fs (d @ [''completed''])
           \<longrightarrow> \<not> exists_path fs' (d @ [''completed''])"
    and run: "steps (take k (do_run_body learn d cfg)) w = (r, w')"
    and ex: "exists_path (files w') (d @ [''completed''])"
  shows "r = None \<and> 6 \<le> k"
proof -
  have pres: "\<And>as v r v'. set as \<subseteq> set (take 5 (do_run_body learn d cfg)) \<Longrightarrow> marker_free d v \<Longrightarrow>
      steps as v = (r, v') \<Longrightarrow> marker_free d v'"
  proof -
    fix as v r v'
    assume sub: "set as \<subseteq> set (take 5 (do_run_body learn d cfg))" and mf: "marker_free d v"
      and st: "steps as v = (r, v')"
    show "marker_free d v'"
      by (rule steps_preserve[where I = "marker_free d", OF _ mf st]) (use sub body5_free frame in blast)
  qed
  have k6: "6 \<le> k"
  proof (rule ccontr)
    assume "\<not> 6 \<le> k"
    then have "take k (do_run_body learn d cfg) = take k (take 5 (do_run_body learn d cfg))"
      by (simp add: min_def)
    then have "set (take k (do_run_body learn d cfg)) \<subseteq> set (take 5 (do_run_body learn d cfg))"
      by (metis set_take_subset)
    from pres[OF this free run] ex show False by (simp add: marker_free_def)
  qed
  then have full: "take k (do_run_body learn d cfg) = take 5 (do_run_body learn d cfg) @ [write_step (d @ [''completed'']) (Text [])]"
    using body_split[of learn d cfg] length_body[of learn d cfg] by simp
  obtain r5 w5 where s5: "steps (take 5 (do_run_body learn d cfg)) w = (r5, w5)"
    by (cases "steps (take 5 (do_run_body learn d cfg)) w")
  have f5: "marker_free d w5" by (rule pres[OF subset_refl free s5])
  have "r = None"
  proof (cases r5)
    case (Some e)
    with run full s5 have "w' = w5" by (simp add: steps_append)
    with f5 ex show ?thesis by (simp add: marker_free_def)
  next
    case None
    with run full s5 have "steps [write_step (d @ [''completed'']) (Text [])] w5 = (r, w')"
      by (simp add: steps_append)
    then obtain r6 where w6: "write_step (d @ [''completed'']) (Text []) w5 = (r6, w')" and "r = r6"
      by (auto split: prod.splits option.splits)
    from w6 show ?thesis
    proof (cases rule: write_step_cases)
      case (fail e)
      with f5 ex show ?thesis by (simp add: marker_free_def)
    next
      case ok
      with \<open>r = r6\<close> show ?thesis by simp
    qed
  qed
  with k6 show ?thesis by simp
qed


lemma steps_Cons_None:
  assumes "steps (a # as) w = (None, w')"
  obtains w1 where "a w = (None, w1)" "steps as w1 = (None, w')"
  using assms by (auto split: prod.splits option.splits)

lemma train_None:
  assumes "train learn cfg d w = (None, w')"
  shows "events w' = events w @ [Learn d] \<and> learn cfg d (files w) = (None, files w')"
  using assms by (auto simp: train_def split: sum.splits prod.splits)

lemma rmtree_step_None:
  assumes "(if exists_path (files w) d then fs_step (\<lambda>fs. rmtree fs d) (Rmtree d) w else (None, w)) = (None, w')"
  shows "\<exists>pre. (pre = [] \<or> pre = [Rmtree d]) \<and> events w' = events w @ pre"
proof (cases "exists_path (files w) d")
  case False
  with assms show ?thesis by simp
next
  case True
  with assms have "fs_step (\<lambda>fs. rmtree fs d) (Rmtree d) w = (None, w')" by simp
  then show ?thesis by (cases rule: fs_step_cases) auto
qed

lemma body_events:
  assumes "steps (do_run_body learn d cfg) w = (None, w')"
  shows "\<exists>pre. (pre = [] \<or> pre = [Rmtree d]) \<and>
           events w' = events w @ pre @
             [Writer d,
              Wrote (d @ [''config.txt'']) (ConfigText cfg),
              Wrote (d @ [''config.pkl'']) (Pickle cfg),
              Learn d,
              Wrote (d @ [''completed'']) (Text [])]"
proof -
  from assms obtain w1 w2 w3 w4 w5 where
      a1: "(if exists_path (files w) d then fs_step (\<lambda>fs. rmtree fs d) (Rmtree d) w else (None, w)) = (None, w1)"
    and a2: "fs_step (\<lambda>fs. summary_writer fs d) (Writer d) w1 = (None, w2)"
    and a3: "write_step (d @ [''config.txt'']) (ConfigText cfg) w2 = (None, w3)"
    and a4: "write_step (d @ [''config.pkl'']) (Pickle cfg) w3 = (None, w4)"
    and a5: "train learn cfg d w4 = (None, w5)"
    and a6: "write_step (d @ [''completed'']) (Text []) w5 = (None, w')"
    unfolding do_run_body_def
    by (elim steps_Cons_None) auto
  from rmtree_step_None[OF a1] obtain pre where
    pre: "pre = [] \<or> pre = [Rmtree d]" and e1: "events w1 = events w @ pre" by blast
  from a2 have e2: "events w2 = events w1 @ [Writer d]" by (cases rule: fs_step_cases) auto
  from a3 have e3: "events w3 = events w2 @ [Wrote (d @ [''config.txt'']) (ConfigText cfg)]"
    by (cases rule: write_step_cases) auto
  from a4 have e4: "events w4 = events w3 @ [Wrote (d @ [''config.pkl'']) (Pickle cfg)]"
    by (cases rule: write_step_cases) auto
  from train_None[OF a5] have e5: "events w5 = events w4 @ [Learn d]" by simp
  from a6 have e6: "events w' = events w5 @ [Wrote (d @ [''completed'']) (Text [])]"
    by (cases rule: write_step_cases) auto
  from pre e1 e2 e3 e4 e5 e6 show ?thesis by auto
qed

lemma body_config_persisted:
  assumes "steps (take 4 (do_run_body learn d cfg)) w = (None, w4)"
  shows "stat (files w4) (d @ [''config.txt'']) = Some (File (ConfigText cfg)) \<and>
         stat (files w4) (d @ [''config.pkl'']) = Some (File (Pickle cfg))"
proof -
  from assms obtain w1 w2 w3 where
        a3: "write_step (d @ [''config.txt'']) (ConfigText cfg) w2 = (None, w3)"
    and a4: "write_step (d @ [''config.pkl'']) (Pickle cfg) w3 = (None, w4)"
    unfolding do_run_body_def
    by (simp del: steps.simps) (elim steps_Cons_None, auto)
  from a3 have s3: "stat (files w3) (d @ [''config.txt'']) = Some (File (ConfigText cfg))"
    by (cases rule: write_step_cases) auto
  from a4 s3 show ?thesis
    by (cases rule: write_step_cases) auto
qed

lemma run_dir_nonempty: "run_dir b i \<noteq> []"
  by (simp add: run_dir_def)

lemma learn_ok_frame:
  "\<forall>fs r fs'. learn_ok cfg d fs = (r, fs') \<longrightarrow> \<not> exists_path fs (d @ [''completed''])
           \<longrightarrow> \<not> exists_path fs' (d @ [''completed''])"
  by (auto simp: learn_ok_def exists_path_def stat_def update_conv')


lemma ex_done: "do_run learn_ok [''log''] default_cfg 0 w_empty = (None, w_done)"
  by code_simp

lemma ex_four: "steps (take 4 (do_run_body learn_ok (run_dir [''log''] 0) default_cfg)) w_empty = (None, w_partial)"
  by code_simp

lemma ex_six: "steps (take 6 (do_run_body learn_ok (run_dir [''log''] 0) default_cfg)) w_empty = (None, w_done)"
  by code_simp

lemma ex_marker: "exists_path (files w_done) (run_dir [''log''] 0 @ [''completed''])"
  by code_simp

lemma ex_free: "\<not> exists_path (files w_empty) (run_dir [''log''] 0 @ [''completed''])"
  by code_simp


text \<open>
  C1. A job that is not skipped does its side effects in one order. When \<^verbatim>\<open>do_run\<close> returns, the
  events it added are: the deletion of a stale directory (if there was one), the summary
  writer, \<^verbatim>\<open>config.txt\<close>, \<^verbatim>\<open>config.pkl\<close>, the training, and last the marker \<^verbatim>\<open>completed\<close>, an empty
  file. After the first four statements, when training is about to start, both configuration
  files are in the job directory. And provided the trainer itself never creates the marker,
  the marker exists after the first \<open>k\<close> statements only if all six statements ran and none
  raised: execution that stops earlier, by a crash or by an exception, leaves no marker.
\<close>

theorem do_run_side_effects_ordered:
  assumes "\<not> exists_path (files w) (run_dir base_dir idx @ [''completed''])"
    and "\<forall>fs r fs'. learn cfg (run_dir base_dir idx) fs = (r, fs')
           \<longrightarrow> \<not> exists_path fs (run_dir base_dir idx @ [''completed''])
           \<longrightarrow> \<not> exists_path fs' (run_dir base_dir idx @ [''completed''])"
  shows "(\<forall>w'. do_run learn base_dir cfg idx w = (None, w') \<longrightarrow>
            (\<exists>pre. (pre = [] \<or> pre = [Rmtree (run_dir base_dir idx)]) \<and>
               events w' = events w @ pre @
                 [Writer (run_dir base_dir idx),
                  Wrote (run_dir base_dir idx @ [''config.txt'']) (ConfigText cfg),
                  Wrote (run_dir base_dir idx @ [''config.pkl'']) (Pickle cfg),
                  Learn (run_dir base_dir idx),
                  Wrote (run_dir base_dir idx @ [''completed'']) (Text [])]))
       \<and> (\<forall>w4. steps (take 4 (do_run_body learn (run_dir base_dir idx) cfg)) w = (None, w4) \<longrightarrow>
            stat (files w4) (run_dir base_dir idx @ [''config.txt'']) = Some (File (ConfigText cfg)) \<and>
            stat (files w4) (run_dir base_dir idx @ [''config.pkl'']) = Some (File (Pickle cfg)))
       \<and> (\<forall>k r w'. steps (take k (do_run_body learn (run_dir base_dir idx) cfg)) w = (r, w') \<longrightarrow>
            exists_path (files w') (run_dir base_dir idx @ [''completed'']) \<longrightarrow>
            r = None \<and> 6 \<le> k \<and> do_run learn base_dir cfg idx w = (None, w'))"
proof (intro conjI allI impI)
  fix w'
  assume "do_run learn base_dir cfg idx w = (None, w')"
  with assms(1) have "steps (do_run_body learn (run_dir base_dir idx) cfg) w = (None, w')"
    by (simp add: do_run_def)
  then show "\<exists>pre. (pre = [] \<or> pre = [Rmtree (run_dir base_dir idx)]) \<and>
               events w' = events w @ pre @
                 [Writer (run_dir base_dir idx),
                  Wrote (run_dir base_dir idx @ [''config.txt'']) (ConfigText cfg),
                  Wrote (run_dir base_dir idx @ [''config.pkl'']) (Pickle cfg),
                  Learn (run_dir base_dir idx),
                  Wrote (run_dir base_dir idx @ [''completed'']) (Text [])]"
    by (rule body_events)
next
  fix w4
  assume "steps (take 4 (do_run_body learn (run_dir base_dir idx) cfg)) w = (None, w4)"
  from body_config_persisted[OF this]
  show "stat (files w4) (run_dir base_dir idx @ [''config.txt'']) = Some (File (ConfigText cfg))"
    and "stat (files w4) (run_dir base_dir idx @ [''config.pkl'']) = Some (File (Pickle cfg))"
    by simp_all
next
  fix k r w'
  assume run: "steps (take k (do_run_body learn (run_dir base_dir idx) cfg)) w = (r, w')"
    and ex: "exists_path (files w') (run_dir base_dir idx @ [''completed''])"
  have free: "marker_free (run_dir base_dir idx) w" using assms(1) by (simp add: marker_free_def)
  from marker_needs_all_steps[OF free assms(2) run ex]
  have r: "r = None" and k: "6 \<le> k" by simp_all
  show "r = None" by (rule r)
  show "6 \<le> k" by (rule k)
  from k have "take k (do_run_body learn (run_dir base_dir idx) cfg) = do_run_body learn (run_dir base_dir idx) cfg"
    by (simp add: length_body)
  with run r assms(1) show "do_run learn base_dir cfg idx w = (None, w')"
    by (simp add: do_run_def)
qed


lemma ex_fail:
  "do_run learn_fail [''log''] default_cfg 0 w_empty =
     (Some (ExternalError ''RuntimeError''), w_partial\<lparr>events := events w_partial @ [Learn [''log'', ''run-0'']]\<rparr>)"
  by code_simp

lemma ex_fail_free:
  "\<not> exists_path (files (w_partial\<lparr>events := events w_partial @ [Learn [''log'', ''run-0'']]\<rparr>))
        (run_dir [''log''] 0 @ [''completed''])"
  by code_simp

theorem do_run_side_effects_ordered_witness:
  "\<not> exists_path (files w_empty) (run_dir [''log''] 0 @ [''completed''])
   \<and> do_run learn_ok [''log''] default_cfg 0 w_empty = (None, w_done)
   \<and> (\<exists>pre. (pre = [] \<or> pre = [Rmtree (run_dir [''log''] 0)]) \<and>
         events w_done = events w_empty @ pre @
           [Writer (run_dir [''log''] 0),
            Wrote (run_dir [''log''] 0 @ [''config.txt'']) (ConfigText default_cfg),
            Wrote (run_dir [''log''] 0 @ [''config.pkl'']) (Pickle default_cfg),
            Learn (run_dir [''log''] 0),
            Wrote (run_dir [''log''] 0 @ [''completed'']) (Text [])])
   \<and> steps (take 4 (do_run_body learn_ok (run_dir [''log''] 0) default_cfg)) w_empty = (None, w_partial)
   \<and> stat (files w_partial) (run_dir [''log''] 0 @ [''config.txt'']) = Some (File (ConfigText default_cfg))
   \<and> stat (files w_partial) (run_dir [''log''] 0 @ [''config.pkl'']) = Some (File (Pickle default_cfg))
   \<and> steps (take 6 (do_run_body learn_ok (run_dir [''log''] 0) default_cfg)) w_empty = (None, w_done)
   \<and> exists_path (files w_done) (run_dir [''log''] 0 @ [''completed''])
   \<and> do_run learn_fail [''log''] default_cfg 0 w_empty =
       (Some (ExternalError ''RuntimeError''), w_partial\<lparr>events := events w_partial @ [Learn [''log'', ''run-0'']]\<rparr>)
   \<and> \<not> exists_path (files (w_partial\<lparr>events := events w_partial @ [Learn [''log'', ''run-0'']]\<rparr>))
        (run_dir [''log''] 0 @ [''completed''])"
  using do_run_side_effects_ordered[where learn = learn_ok and cfg = default_cfg and base_dir = "[''log'']"
      and idx = 0 and w = w_empty, OF ex_free learn_ok_frame[of default_cfg "run_dir [''log''] 0"]]
    ex_free ex_done ex_four ex_six ex_marker ex_fail ex_fail_free
  by blast

lemma makedirs_from_keeps:
  "makedirs_from fs p ns = Inr fs' \<Longrightarrow> map_of fs q = Some e \<Longrightarrow> map_of fs' q = Some e"
proof (induction ns arbitrary: fs p)
  case Nil
  then show ?case by simp
next
  case (Cons n ns)
  show ?case
  proof (cases "stat fs (p @ [n])")
    case None
    with Cons.prems(1) have m: "makedirs_from (fs @ [(p @ [n], Dir)]) (p @ [n]) ns = Inr fs'" by simp
    have "map_of (fs @ [(p @ [n], Dir)]) q = Some e" using Cons.prems(2) by (simp add: map_add_def)
    from Cons.IH[OF m this] show ?thesis .
  next
    case (Some d)
    with Cons.prems(1) have "makedirs_from fs (p @ [n]) ns = Inr fs'" by (cases d) simp_all
    from Cons.IH[OF this Cons.prems(2)] show ?thesis .
  qed
qed








lemma action_events_grow:
  assumes "a \<in> set (do_run_body learn d cfg)" and "a v = (r, v')"
  shows "prefix (events v) (events v')"
proof -
  from assms(1) consider
      "a = (\<lambda>w. if exists_path (files w) d then fs_step (\<lambda>fs. rmtree fs d) (Rmtree d) w else (None, w))"
    | f ev where "a = fs_step f ev"
    | "a = train learn cfg d"
    unfolding do_run_body_def write_step_def by auto
  then show ?thesis
  proof cases
    case 1
    with assms(2) show ?thesis by (auto simp: fs_step_def split: if_splits sum.splits)
  next
    case 2
    with assms(2) show ?thesis by (auto simp: fs_step_def split: sum.splits)
  next
    case 3
    with assms(2) show ?thesis by (auto simp: train_def split: sum.splits prod.splits)
  qed
qed

lemma steps_events_grow:
  assumes "set as \<subseteq> set (do_run_body learn d cfg)" and "steps as v = (r, v')"
  shows "prefix (events v) (events v')"
proof (rule steps_preserve[where I = "\<lambda>u. prefix (events v) (events u)", OF _ _ assms(2)])
  fix a u r1 u'
  assume "a \<in> set as" and p: "prefix (events v) (events u)" and "a u = (r1, u')"
  with assms(1) have "prefix (events u) (events u')" using action_events_grow by blast
  with p show "prefix (events v) (events u')" by (rule prefix_order.trans)
qed simp


























lemma makedirs_from_dirs:
  "makedirs_from fs p ns = Inr fs' \<Longrightarrow> q \<noteq> [] \<Longrightarrow> prefix q ns \<Longrightarrow> stat fs' (p @ q) = Some Dir"
proof (induction ns arbitrary: fs p q)
  case Nil
  then show ?case by simp
next
  case (Cons n ns)
  from Cons.prems(2,3) obtain q' where q: "q = n # q'" and q': "prefix q' ns"
    by (cases q) auto
  obtain fs2 where m: "makedirs_from fs2 (p @ [n]) ns = Inr fs'" and d: "map_of fs2 (p @ [n]) = Some Dir"
  proof (cases "stat fs (p @ [n])")
    case None
    then have "map_of (fs @ [(p @ [n], Dir)]) (p @ [n]) = Some Dir"
      by (simp add: stat_def map_add_def)
    moreover from None Cons.prems(1) have "makedirs_from (fs @ [(p @ [n], Dir)]) (p @ [n]) ns = Inr fs'"
      by simp
    ultimately show ?thesis using that by blast
  next
    case (Some e)
    with Cons.prems(1) have "e = Dir" and "makedirs_from fs (p @ [n]) ns = Inr fs'"
      by (cases e; simp)+
    moreover from Some \<open>e = Dir\<close> have "map_of fs (p @ [n]) = Some Dir" by (simp add: stat_def)
    ultimately show ?thesis using that by blast
  qed
  show ?case
  proof (cases "q' = []")
    case True
    from makedirs_from_keeps[OF m d] True q show ?thesis by (simp add: stat_def)
  next
    case False
    from Cons.IH[OF m False q'] q show ?thesis by simp
  qed
qed

lemma stat_summary_writer_fresh:
  assumes sw: "summary_writer fs d = Inr fs'" and d: "d \<noteq> []"
  shows "stat fs' p =
     (if p = d @ [''events.out.tfevents''] then Some (File (Blob []))
      else if prefix p d then Some Dir
      else stat fs p)"
proof -
  from sw obtain fsm where m: "makedirs fs d = Inr fsm"
    and o: "open_w fsm (d @ [''events.out.tfevents'']) (Blob []) = Inr fs'"
    by (auto simp: summary_writer_def bind_err_def split: sum.splits)
  show ?thesis
  proof (cases "p = d @ [''events.out.tfevents'']")
    case True
    with stat_open_w[OF o, of p] show ?thesis by simp
  next
    case False
    with stat_open_w[OF o, of p] have e: "stat fs' p = stat fsm p" by simp
    show ?thesis
    proof (cases "prefix p d")
      case True
      have "stat fsm p = Some Dir"
      proof (cases "p = []")
        case True
        then show ?thesis by (simp add: stat_def)
      next
        case np: False
        from makedirs_from_dirs[OF m[unfolded makedirs_def] np True] show ?thesis by simp
      qed
      with e True False show ?thesis by simp
    next
      case np: False
      from makedirs_from_other[OF m[unfolded makedirs_def], of p] np
      have "map_of fsm p = map_of fs p" by simp
      then have "stat fsm p = stat fs p" by (simp add: stat_def)
      with e np False show ?thesis by simp
    qed
  qed
qed

lemma take4_body:
  "take 4 (do_run_body learn d cfg) =
     [(\<lambda>w. if exists_path (files w) d then fs_step (\<lambda>fs. rmtree fs d) (Rmtree d) w else (None, w)),
      fs_step (\<lambda>fs. summary_writer fs d) (Writer d),
      write_step (d @ [''config.txt'']) (ConfigText cfg),
      write_step (d @ [''config.pkl'']) (Pickle cfg)]"
  by (simp add: do_run_body_def)

lemma body_split4:
  "do_run_body learn d cfg =
     take 4 (do_run_body learn d cfg) @ [train learn cfg d, write_step (d @ [''completed'']) (Text [])]"
  by (simp add: do_run_body_def)

lemma fresh_before_training:
  assumes dir: "is_dir (files w) d" and d: "d \<noteq> []"
    and run: "steps (take 4 (do_run_body learn d cfg)) w = (None, w4)"
  shows "events w4 = events w @
           [Rmtree d, Writer d,
            Wrote (d @ [''config.txt'']) (ConfigText cfg),
            Wrote (d @ [''config.pkl'']) (Pickle cfg)]"
    and "stat (files w4) p =
           (if p = d @ [''config.pkl''] then Some (File (Pickle cfg))
            else if p = d @ [''config.txt''] then Some (File (ConfigText cfg))
            else if p = d @ [''events.out.tfevents''] then Some (File (Blob []))
            else if prefix p d then Some Dir
            else if prefix d p then None
            else stat (files w) p)"
proof -
  from run obtain w1 w2 w3 where
      a1: "(if exists_path (files w) d then fs_step (\<lambda>fs. rmtree fs d) (Rmtree d) w else (None, w)) = (None, w1)"
    and a2: "fs_step (\<lambda>fs. summary_writer fs d) (Writer d) w1 = (None, w2)"
    and a3: "write_step (d @ [''config.txt'']) (ConfigText cfg) w2 = (None, w3)"
    and a4: "write_step (d @ [''config.pkl'']) (Pickle cfg) w3 = (None, w4)"
    unfolding take4_body
    by (elim steps_Cons_None) auto
  from dir have "exists_path (files w) d" by (simp add: is_dir_def exists_path_def)
  with a1 have "fs_step (\<lambda>fs. rmtree fs d) (Rmtree d) w = (None, w1)" by simp
  then obtain fs1 where rm: "rmtree (files w) d = Inr fs1"
    and w1: "w1 = w\<lparr>files := fs1, events := events w @ [Rmtree d]\<rparr>"
    by (cases rule: fs_step_cases) auto
  from a2 obtain fs2 where sw: "summary_writer (files w1) d = Inr fs2"
    and w2: "w2 = w1\<lparr>files := fs2, events := events w1 @ [Writer d]\<rparr>"
    by (cases rule: fs_step_cases) auto
  from a3 have e3: "events w3 = events w2 @ [Wrote (d @ [''config.txt'']) (ConfigText cfg)]"
    and s3: "stat (files w3) p = (if p = d @ [''config.txt''] then Some (File (ConfigText cfg)) else stat (files w2) p)"
    by (cases rule: write_step_cases; simp)+
  from a4 have e4: "events w4 = events w3 @ [Wrote (d @ [''config.pkl'']) (Pickle cfg)]"
    and s4: "stat (files w4) p = (if p = d @ [''config.pkl''] then Some (File (Pickle cfg)) else stat (files w3) p)"
    by (cases rule: write_step_cases; simp)+
  from e4 e3 w2 w1 show "events w4 = events w @
           [Rmtree d, Writer d,
            Wrote (d @ [''config.txt'']) (ConfigText cfg),
            Wrote (d @ [''config.pkl'']) (Pickle cfg)]" by simp
  have s1: "stat fs1 p = (if p = [] then Some Dir else if prefix d p then None else stat (files w) p)"
    using stat_rmtree[OF rm, of p] by (simp add: stat_def)
  have s2: "stat (files w2) p =
     (if p = d @ [''events.out.tfevents''] then Some (File (Blob []))
      else if prefix p d then Some Dir
      else stat fs1 p)"
    using stat_summary_writer_fresh[OF sw d, of p] w2 w1 by simp
  have "p = [] \<Longrightarrow> prefix p d" by simp
  with s4 s3 s2 s1 show "stat (files w4) p =
           (if p = d @ [''config.pkl''] then Some (File (Pickle cfg))
            else if p = d @ [''config.txt''] then Some (File (ConfigText cfg))
            else if p = d @ [''events.out.tfevents''] then Some (File (Blob []))
            else if prefix p d then Some Dir
            else if prefix d p then None
            else stat (files w) p)"
    by (cases "p = []") simp_all
qed


text \<open>
  C3. When the job directory exists and holds no marker, \<^verbatim>\<open>do_run\<close> first deletes the whole
  tree: nothing at or below the directory is left, everything else stays, and the deletion is
  the first event of the run however it ends. It then goes on from that state, which is
  exactly what \<^verbatim>\<open>do_run\<close> does when started in the world without the directory. When training is
  about to start, the directory holds the event file and the two configuration files of this
  run and nothing else, no entry of the earlier attempt; outside of it only missing parent
  directories were added. When \<^verbatim>\<open>do_run\<close> returns, the trainer was called on that file system
  and returned, the events of the run are the deletion, the summary writer, the two
  configuration files, the training and the marker, and the files are those the trainer
  left, with the marker added.
\<close>

theorem do_run_deletes_partial:
  assumes "is_dir (files w) (run_dir base_dir idx)"
    and "\<not> exists_path (files w) (run_dir base_dir idx @ [''completed''])"
  shows "(\<exists>fs1. rmtree (files w) (run_dir base_dir idx) = Inr fs1
      \<and> (\<forall>p. prefix (run_dir base_dir idx) p \<longrightarrow> \<not> exists_path fs1 p)
      \<and> (\<forall>p. \<not> prefix (run_dir base_dir idx) p \<longrightarrow> stat fs1 p = stat (files w) p)
      \<and> do_run learn base_dir cfg idx w =
          steps (tl (do_run_body learn (run_dir base_dir idx) cfg))
            (w\<lparr>files := fs1, events := events w @ [Rmtree (run_dir base_dir idx)]\<rparr>)
      \<and> do_run learn base_dir cfg idx w =
          do_run learn base_dir cfg idx
            (w\<lparr>files := fs1, events := events w @ [Rmtree (run_dir base_dir idx)]\<rparr>))
    \<and> (\<forall>r w'. do_run learn base_dir cfg idx w = (r, w') \<longrightarrow>
          prefix (events w @ [Rmtree (run_dir base_dir idx)]) (events w'))
    \<and> (\<forall>w4. steps (take 4 (do_run_body learn (run_dir base_dir idx) cfg)) w = (None, w4) \<longrightarrow>
          events w4 = events w @
            [Rmtree (run_dir base_dir idx),
             Writer (run_dir base_dir idx),
             Wrote (run_dir base_dir idx @ [''config.txt'']) (ConfigText cfg),
             Wrote (run_dir base_dir idx @ [''config.pkl'']) (Pickle cfg)]
          \<and> (\<forall>p. stat (files w4) p =
                (if p = run_dir base_dir idx @ [''config.pkl''] then Some (File (Pickle cfg))
                 else if p = run_dir base_dir idx @ [''config.txt''] then Some (File (ConfigText cfg))
                 else if p = run_dir base_dir idx @ [''events.out.tfevents''] then Some (File (Blob []))
                 else if prefix p (run_dir base_dir idx) then Some Dir
                 else if prefix (run_dir base_dir idx) p then None
                 else stat (files w) p)))
    \<and> (\<forall>w'. do_run learn base_dir cfg idx w = (None, w') \<longrightarrow>
          (\<exists>w4 fs5. steps (take 4 (do_run_body learn (run_dir base_dir idx) cfg)) w = (None, w4)
             \<and> learn cfg (run_dir base_dir idx) (files w4) = (None, fs5)
             \<and> events w' = events w @
                 [Rmtree (run_dir base_dir idx),
                  Writer (run_dir base_dir idx),
                  Wrote (run_dir base_dir idx @ [''config.txt'']) (ConfigText cfg),
                  Wrote (run_dir base_dir idx @ [''config.pkl'']) (Pickle cfg),
                  Learn (run_dir base_dir idx),
                  Wrote (run_dir base_dir idx @ [''completed'']) (Text [])]
             \<and> (\<forall>p. stat (files w') p =
                   (if p = run_dir base_dir idx @ [''completed''] then Some (File (Text []))
                    else stat fs5 p))))"
proof -
  let ?d = "run_dir base_dir idx"
  let ?fs1 = "filter (\<lambda>(q, _). \<not> prefix ?d q) (files w)"
  let ?w1 = "w\<lparr>files := ?fs1, events := events w @ [Rmtree ?d]\<rparr>"
  have dne: "?d \<noteq> []" by (rule run_dir_nonempty)
  have rm: "rmtree (files w) ?d = Inr ?fs1"
    using assms(1) by (simp add: rmtree_def is_dir_def)
  have gone: "\<not> exists_path ?fs1 p" if "prefix ?d p" for p
  proof -
    from that have "p \<noteq> []" using dne by auto
    with stat_rmtree[OF rm this] that show ?thesis by (simp add: exists_path_def)
  qed
  have kept: "stat ?fs1 p = stat (files w) p" if "\<not> prefix ?d p" for p
  proof (cases "p = []")
    case True
    then show ?thesis by (simp add: stat_def)
  next
    case False
    with stat_rmtree[OF rm False] that show ?thesis by simp
  qed
  have ex: "exists_path (files w) ?d" using assms(1) by (simp add: is_dir_def exists_path_def)
  have body: "do_run_body learn ?d cfg =
      (\<lambda>w. if exists_path (files w) ?d then fs_step (\<lambda>fs. rmtree fs ?d) (Rmtree ?d) w else (None, w))
        # tl (do_run_body learn ?d cfg)"
    by (simp add: do_run_body_def)
  have "steps (do_run_body learn ?d cfg) w = steps (tl (do_run_body learn ?d cfg)) ?w1"
    by (subst body) (simp add: ex rm fs_step_def)
  then have first: "do_run learn base_dir cfg idx w = steps (tl (do_run_body learn ?d cfg)) ?w1"
    using assms(2) by (simp add: do_run_def Let_def)
  have nm: "\<not> exists_path (files ?w1) (?d @ [''completed''])" and nd: "\<not> exists_path (files ?w1) ?d"
    using gone[of "?d @ [''completed'']"] gone[of ?d] by simp_all
  have "steps (do_run_body learn ?d cfg) ?w1 = steps (tl (do_run_body learn ?d cfg)) ?w1"
    by (subst body) (use nd in simp)
  then have "do_run learn base_dir cfg idx ?w1 = steps (tl (do_run_body learn ?d cfg)) ?w1"
    using nm by (simp add: do_run_def Let_def)
  with first rm gone kept have A: "\<exists>fs1. rmtree (files w) ?d = Inr fs1
      \<and> (\<forall>p. prefix ?d p \<longrightarrow> \<not> exists_path fs1 p)
      \<and> (\<forall>p. \<not> prefix ?d p \<longrightarrow> stat fs1 p = stat (files w) p)
      \<and> do_run learn base_dir cfg idx w =
          steps (tl (do_run_body learn ?d cfg)) (w\<lparr>files := fs1, events := events w @ [Rmtree ?d]\<rparr>)
      \<and> do_run learn base_dir cfg idx w =
          do_run learn base_dir cfg idx (w\<lparr>files := fs1, events := events w @ [Rmtree ?d]\<rparr>)"
    by auto
  have B: "prefix (events w @ [Rmtree ?d]) (events w')" if "do_run learn base_dir cfg idx w = (r, w')" for r w'
  proof -
    from that first have "steps (tl (do_run_body learn ?d cfg)) ?w1 = (r, w')" by simp
    moreover have "set (tl (do_run_body learn ?d cfg)) \<subseteq> set (do_run_body learn ?d cfg)"
      by (simp add: do_run_body_def)
    ultimately have "prefix (events ?w1) (events w')" by (rule steps_events_grow[rotated])
    then show ?thesis by simp
  qed
  have C: "events w4 = events w @
            [Rmtree ?d, Writer ?d,
             Wrote (?d @ [''config.txt'']) (ConfigText cfg),
             Wrote (?d @ [''config.pkl'']) (Pickle cfg)]
          \<and> (\<forall>p. stat (files w4) p =
                (if p = ?d @ [''config.pkl''] then Some (File (Pickle cfg))
                 else if p = ?d @ [''config.txt''] then Some (File (ConfigText cfg))
                 else if p = ?d @ [''events.out.tfevents''] then Some (File (Blob []))
                 else if prefix p ?d then Some Dir
                 else if prefix ?d p then None
                 else stat (files w) p))"
    if "steps (take 4 (do_run_body learn ?d cfg)) w = (None, w4)" for w4
    using fresh_before_training[OF assms(1) dne that] by blast
  have D: "\<exists>w4 fs5. steps (take 4 (do_run_body learn ?d cfg)) w = (None, w4)
             \<and> learn cfg ?d (files w4) = (None, fs5)
             \<and> events w' = events w @
                 [Rmtree ?d, Writer ?d,
                  Wrote (?d @ [''config.txt'']) (ConfigText cfg),
                  Wrote (?d @ [''config.pkl'']) (Pickle cfg),
                  Learn ?d,
                  Wrote (?d @ [''completed'']) (Text [])]
             \<and> (\<forall>p. stat (files w') p =
                   (if p = ?d @ [''completed''] then Some (File (Text [])) else stat fs5 p))"
    if "do_run learn base_dir cfg idx w = (None, w')" for w'
  proof -
    from that assms(2) have "steps (do_run_body learn ?d cfg) w = (None, w')"
      by (simp add: do_run_def Let_def)
    then have "steps (take 4 (do_run_body learn ?d cfg)
        @ [train learn cfg ?d, write_step (?d @ [''completed'']) (Text [])]) w = (None, w')"
      using body_split4[of learn ?d cfg] by simp
    then obtain w4 where s4: "steps (take 4 (do_run_body learn ?d cfg)) w = (None, w4)"
      and rest: "steps [train learn cfg ?d, write_step (?d @ [''completed'']) (Text [])] w4 = (None, w')"
      by (auto simp: steps_append split: prod.splits option.splits)
    from rest obtain w5 where t: "train learn cfg ?d w4 = (None, w5)"
      and m: "write_step (?d @ [''completed'']) (Text []) w5 = (None, w')"
      by (elim steps_Cons_None) auto
    from train_None[OF t] have e5: "events w5 = events w4 @ [Learn ?d]"
      and l: "learn cfg ?d (files w4) = (None, files w5)" by simp_all
    from m have e6: "events w' = events w5 @ [Wrote (?d @ [''completed'']) (Text [])]"
      and s6: "\<And>p. stat (files w') p =
          (if p = ?d @ [''completed''] then Some (File (Text [])) else stat (files w5) p)"
      by (cases rule: write_step_cases; simp)+
    from C[OF s4] e5 e6 have "events w' = events w @
                 [Rmtree ?d, Writer ?d,
                  Wrote (?d @ [''config.txt'']) (ConfigText cfg),
                  Wrote (?d @ [''config.pkl'']) (Pickle cfg),
                  Learn ?d,
                  Wrote (?d @ [''completed'']) (Text [])]" by simp
    with s4 l s6 show ?thesis by blast
  qed
  from A B C D show ?thesis by blast
qed

lemma ex_stale_dir: "is_dir (files w_stale) (run_dir [''log''] 0)"
  by code_simp

lemma ex_stale_free: "\<not> exists_path (files w_stale) (run_dir [''log''] 0 @ [''completed''])"
  by code_simp

lemma ex_stale_run: "do_run learn_ok [''log''] default_cfg 0 w_stale = (None, w_redone)"
  by code_simp

lemma ex_stale_files:
  "stat (files w_stale) [''log'', ''run-0'', ''checkpoint.pt''] = Some (File (Blob ''stale''))"
  "stat (files w_redone) [''log'', ''run-0'', ''checkpoint.pt''] = None"
  "stat (files w_stale) [''log'', ''run-0'', ''config.pkl''] = Some (File (Pickle cfg_lr))"
  "stat (files w_redone) [''log'', ''run-0'', ''config.pkl''] = Some (File (Pickle default_cfg))"
  "stat (files w_redone) [''log'', ''run-0'', ''best.pt''] = Some (File (Blob []))"
  "stat (files w_redone) [''log'', ''run-1'', ''completed''] = Some (File (Text []))"
  by code_simp+

theorem do_run_deletes_partial_witness:
  "is_dir (files w_stale) (run_dir [''log''] 0)
   \<and> \<not> exists_path (files w_stale) (run_dir [''log''] 0 @ [''completed''])
   \<and> do_run learn_ok [''log''] default_cfg 0 w_stale = (None, w_redone)
   \<and> stat (files w_stale) [''log'', ''run-0'', ''checkpoint.pt''] = Some (File (Blob ''stale''))
   \<and> stat (files w_redone) [''log'', ''run-0'', ''checkpoint.pt''] = None
   \<and> stat (files w_stale) [''log'', ''run-0'', ''config.pkl''] = Some (File (Pickle cfg_lr))
   \<and> stat (files w_redone) [''log'', ''run-0'', ''config.pkl''] = Some (File (Pickle default_cfg))
   \<and> stat (files w_redone) [''log'', ''run-0'', ''best.pt''] = Some (File (Blob []))
   \<and> stat (files w_redone) [''log'', ''run-1'', ''completed''] = Some (File (Text []))
   \<and> prefix (events w_stale @ [Rmtree (run_dir [''log''] 0)]) (events w_redone)
   \<and> (\<exists>w4 fs5. steps (take 4 (do_run_body learn_ok (run_dir [''log''] 0) default_cfg)) w_stale = (None, w4)
        \<and> learn_ok default_cfg (run_dir [''log''] 0) (files w4) = (None, fs5)
        \<and> events w_redone = events w_stale @
            [Rmtree (run_dir [''log''] 0),
             Writer (run_dir [''log''] 0),
             Wrote (run_dir [''log''] 0 @ [''config.txt'']) (ConfigText default_cfg),
             Wrote (run_dir [''log''] 0 @ [''config.pkl'']) (Pickle default_cfg),
             Learn (run_dir [''log''] 0),
             Wrote (run_dir [''log''] 0 @ [''completed'']) (Text [])])"
  using do_run_deletes_partial[where w = w_stale and base_dir = "[''log'']" and idx = 0
      and learn = learn_ok and cfg = default_cfg, OF ex_stale_dir ex_stale_free]
    ex_stale_dir ex_stale_free ex_stale_run ex_stale_files
  by blast

section \<open>Properties of the scanner\<close>

lemma set_iterdir:
  "set (iterdir fs root) = {q \<in> fst ` set fs. q \<noteq> [] \<and> q \<noteq> [''/''] \<and> butlast q = root}"
  by (auto simp: iterdir_def)

lemma child_iff: "q \<noteq> [] \<and> butlast q = root \<and> last q = n \<longleftrightarrow> q = root @ [n]"
  by (cases q rule: rev_cases) auto

lemma not_abs_root: "n \<noteq> ''/'' \<Longrightarrow> root @ [n] \<noteq> [''/'']"
  by (cases root) auto

lemma names_iff:
  "n \<in> last ` set (iterdir fs root) \<longleftrightarrow> exists_path fs (root @ [n]) \<and> root @ [n] \<noteq> [''/'']"
proof
  assume "n \<in> last ` set (iterdir fs root)"
  then obtain q where q: "q \<in> fst ` set fs" "q \<noteq> []" "q \<noteq> [''/'']" "butlast q = root" "last q = n"
    by (auto simp: set_iterdir)
  from q(2,4,5) have "q = root @ [n]" using child_iff[of q root n] by simp
  with q(1,3) show "exists_path fs (root @ [n]) \<and> root @ [n] \<noteq> [''/'']"
    by (simp add: exists_path_def stat_def map_of_eq_None_iff)
next
  assume a: "exists_path fs (root @ [n]) \<and> root @ [n] \<noteq> [''/'']"
  then have "root @ [n] \<in> fst ` set fs"
    by (simp add: exists_path_def stat_def map_of_eq_None_iff)
  with a have "root @ [n] \<in> set (iterdir fs root)" by (simp add: set_iterdir)
  then have "last (root @ [n]) \<in> last ` set (iterdir fs root)" by (rule imageI)
  then show "n \<in> last ` set (iterdir fs root)" by simp
qed

lemma card_both: "a \<noteq> b \<Longrightarrow> card ({a, b} \<inter> S) = 2 \<longleftrightarrow> a \<in> S \<and> b \<in> S"
proof -
  assume ab: "a \<noteq> b"
  consider "a \<in> S" "b \<in> S" | "a \<in> S" "b \<notin> S" | "a \<notin> S" "b \<in> S" | "a \<notin> S" "b \<notin> S" by blast
  then show ?thesis
  proof cases
    case 1 then have "{a, b} \<inter> S = {a, b}" by blast
    with ab 1 show ?thesis by simp
  next
    case 2 then have "{a, b} \<inter> S = {a}" by blast
    with 2 show ?thesis by simp
  next
    case 3 then have "{a, b} \<inter> S = {b}" by blast
    with 3 show ?thesis by simp
  next
    case 4 then have "{a, b} \<inter> S = {}" by blast
    with 4 show ?thesis by simp
  qed
qed

lemma expand_paths_unfold:
  "expand_paths fs root =
     (if \<not> is_dir fs root then []
      else (if is_artifact fs root then [root] else []) @ concat (map (expand_paths fs) (iterdir fs root)))"
proof -
  have "card ({''best.pt'', ''config.pkl''} \<inter> set (map last (iterdir fs root))) = 2 \<longleftrightarrow> is_artifact fs root"
    by (subst card_both) (simp_all add: names_iff is_artifact_def not_abs_root)
  then show ?thesis
    by (subst expand_paths.simps) (simp add: Let_def)
qed

lemma below_step:
  assumes "is_dir fs root"
  shows "below fs root = {root} \<union> (\<Union>c \<in> set (iterdir fs root). below fs c)"
proof (intro set_eqI iffI)
  fix p assume p: "p \<in> below fs root"
  show "p \<in> {root} \<union> (\<Union>c \<in> set (iterdir fs root). below fs c)"
  proof (cases "p = root")
    case True then show ?thesis by simp
  next
    case False
    from p have pre: "prefix root p" and ch: "\<And>q. prefix root q \<Longrightarrow> prefix q p \<Longrightarrow> is_dir fs q"
      and na: "\<not> (root = [] \<and> prefix [''/''] p)"
      by (auto simp: below_def inside_def)
    from pre False obtain zs where "p = root @ zs" "zs \<noteq> []"
      by (auto simp: prefix_def)
    then obtain n rest where pe: "p = root @ n # rest"
      by (cases zs) auto
    let ?c = "root @ [n]"
    have cp: "prefix ?c p" using pe by (simp add: prefix_def)
    have cr: "?c \<noteq> [''/'']" using na pe by (cases root) auto
    have "is_dir fs ?c" by (rule ch) (use cp in simp_all)
    then have "?c \<in> fst ` set fs"
      by (auto simp: is_dir_def stat_def dest: map_of_SomeD intro: rev_image_eqI)
    with cr have cin: "?c \<in> set (iterdir fs root)" by (simp add: set_iterdir)
    have "is_dir fs q" if "prefix ?c q" "prefix q p" for q
    proof -
      have "prefix root ?c" by simp
      with that(1) have "prefix root q" by (rule prefix_order.order_trans[rotated])
      with that(2) show ?thesis by (intro ch)
    qed
    with cp have "p \<in> below fs ?c" by (simp add: below_def inside_def)
    with cin show ?thesis by blast
  qed
next
  fix p assume "p \<in> {root} \<union> (\<Union>c \<in> set (iterdir fs root). below fs c)"
  then consider "p = root" | c where "c \<in> set (iterdir fs root)" "p \<in> below fs c" by blast
  then show "p \<in> below fs root"
  proof cases
    case 1
    with assms show ?thesis by (auto simp: below_def inside_def dest: prefix_order.antisym)
  next
    case 2
    from 2(1) have c0: "c \<noteq> []" "butlast c = root" and cr: "c \<noteq> [''/'']"
      by (simp_all add: set_iterdir)
    define n where "n = last c"
    from c0 have c: "c = root @ [n]" unfolding n_def by (metis append_butlast_last_id)
    from 2(2) have cp: "prefix c p" and ch: "\<And>q. prefix c q \<Longrightarrow> prefix q p \<Longrightarrow> is_dir fs q"
      by (auto simp: below_def inside_def)
    have "is_dir fs q" if rq: "prefix root q" and qp: "prefix q p" for q
    proof -
      from cp qp have "prefix c q \<or> prefix q c" by (rule prefix_same_cases)
      then show ?thesis
      proof
        assume "prefix c q" then show ?thesis using qp by (rule ch)
      next
        assume "prefix q c"
        then have "q = c \<or> prefix q root" by (simp add: c)
        then show ?thesis
        proof
          assume "q = c" with ch[of c] cp show ?thesis by simp
        next
          assume "prefix q root"
          with rq have "q = root" by (rule prefix_order.antisym[rotated])
          with assms show ?thesis by simp
        qed
      qed
    qed
    moreover have "prefix root p" using cp c by (auto simp: prefix_def)
    moreover have "\<not> (root = [] \<and> prefix [''/''] p)"
    proof
      assume a: "root = [] \<and> prefix [''/''] p"
      with c cp obtain rest where "p = n # rest" by (auto simp: prefix_def)
      with a have "n = ''/''" by (auto simp: prefix_def)
      with a c cr show False by simp
    qed
    ultimately show ?thesis by (simp add: below_def inside_def)
  qed
qed

lemma below_not_dir: "\<not> is_dir fs root \<Longrightarrow> below fs root = {}"
  by (auto simp: below_def inside_def)

lemma set_expand_paths:
  "set (expand_paths fs root) = {p \<in> below fs root. is_artifact fs p}"
proof (induction fs root rule: expand_paths.induct)
  case (1 fs root)
  show ?case
  proof (cases "is_dir fs root")
    case False
    then show ?thesis by (subst expand_paths_unfold) (simp add: below_not_dir)
  next
    case True
    have IH: "set (expand_paths fs c) = {p \<in> below fs c. is_artifact fs p}" if "c \<in> set (iterdir fs root)" for c
      using "1.IH"[OF _ refl refl refl that] True by simp
    have "set (expand_paths fs root) =
        (if is_artifact fs root then {root} else {}) \<union> (\<Union>c \<in> set (iterdir fs root). set (expand_paths fs c))"
      by (subst expand_paths_unfold) (simp add: True)
    also have "\<dots> = (if is_artifact fs root then {root} else {}) \<union>
        (\<Union>c \<in> set (iterdir fs root). {p \<in> below fs c. is_artifact fs p})"
      using IH by simp
    also have "\<dots> = {p \<in> below fs root. is_artifact fs p}"
      unfolding below_step[OF True] by auto
    finally show ?thesis .
  qed
qed


lemma below_prefix: "p \<in> below fs c \<Longrightarrow> prefix c p"
  by (simp add: below_def inside_def)

lemma distinct_concat_map:
  assumes "distinct cs" and "\<And>c. c \<in> set cs \<Longrightarrow> distinct (f c)"
    and "\<And>c d. c \<in> set cs \<Longrightarrow> d \<in> set cs \<Longrightarrow> c \<noteq> d \<Longrightarrow> set (f c) \<inter> set (f d) = {}"
  shows "distinct (concat (map f cs))"
  using assms
proof (induction cs)
  case Nil
  then show ?case by simp
next
  case (Cons c cs)
  have "distinct (concat (map f cs))"
    by (rule Cons.IH) (use Cons.prems in auto)
  moreover have "distinct (f c)" using Cons.prems(2) by simp
  moreover have "set (f c) \<inter> set (f d) = {}" if "d \<in> set cs" for d
    using Cons.prems(3)[of c d] Cons.prems(1) that by auto
  ultimately show ?case by auto
qed

lemma length_child: "c \<in> set (iterdir fs root) \<Longrightarrow> length c = Suc (length root)"
  by (cases c rule: rev_cases) (auto simp: set_iterdir)

lemma distinct_expand_paths: "distinct (expand_paths fs root)"
proof (induction fs root rule: expand_paths.induct)
  case (1 fs root)
  show ?case
  proof (cases "is_dir fs root")
    case False
    then show ?thesis by (subst expand_paths_unfold) simp
  next
    case True
    have IH: "distinct (expand_paths fs c)" if "c \<in> set (iterdir fs root)" for c
      using "1.IH"[OF _ refl refl refl that] True by simp
    have pre: "prefix c p" if "p \<in> set (expand_paths fs c)" for c p
      using that by (auto simp: set_expand_paths below_prefix)
    have disj: "set (expand_paths fs c) \<inter> set (expand_paths fs d) = {}"
      if "c \<in> set (iterdir fs root)" "d \<in> set (iterdir fs root)" "c \<noteq> d" for c d
    proof (rule ccontr)
      assume "set (expand_paths fs c) \<inter> set (expand_paths fs d) \<noteq> {}"
      then obtain p where "prefix c p" "prefix d p" using pre by blast
      then have "prefix c d \<or> prefix d c" by (rule prefix_same_cases)
      moreover have "length c = length d" using that(1,2) by (simp add: length_child)
      ultimately have "c = d" by (auto simp: prefix_def)
      with that(3) show False by simp
    qed
    have "distinct (iterdir fs root)" by (simp add: iterdir_def)
    then have dc: "distinct (concat (map (expand_paths fs) (iterdir fs root)))"
      by (rule distinct_concat_map) (use IH disj in auto)
    have "root \<notin> set (expand_paths fs c)" if "c \<in> set (iterdir fs root)" for c
    proof
      assume "root \<in> set (expand_paths fs c)"
      then have "prefix c root" by (rule pre)
      then have "length c \<le> length root" by (rule prefix_length_le)
      with length_child[OF that] show False by simp
    qed
    with dc show ?thesis
      by (subst expand_paths_unfold) (auto simp: True)
  qed
qed

lemma dirs_above:
  assumes "parents_are_dirs fs"
  shows "is_dir fs p \<Longrightarrow> prefix q p \<Longrightarrow> is_dir fs q"
proof (induction p rule: rev_induct)
  case Nil
  then show ?case by simp
next
  case (snoc x p)
  from snoc.prems(2) have "q = p @ [x] \<or> prefix q p" by simp
  then show ?case
  proof
    assume "q = p @ [x]" with snoc.prems(1) show ?thesis by simp
  next
    assume qp: "prefix q p"
    from snoc.prems(1) have "p @ [x] \<in> fst ` set fs"
      by (auto simp: is_dir_def stat_def dest: map_of_SomeD intro: rev_image_eqI)
    with assms have "is_dir fs (butlast (p @ [x]))" unfolding parents_are_dirs_def by blast
    then have "is_dir fs p" by simp
    from snoc.IH[OF this qp] show ?thesis .
  qed
qed

lemma below_wf:
  assumes "parents_are_dirs fs"
  shows "below fs root = {p. inside root p \<and> is_dir fs p}"
  using dirs_above[OF assms] by (auto simp: below_def inside_def)

text \<open>
  C4. \<^verbatim>\<open>expand_paths\<close> returns exactly the directories at or below the root that are reached
  from it through directories (the root included) and that have an entry named \<^verbatim>\<open>best.pt\<close> and an entry named
  \<^verbatim>\<open>config.pkl\<close>; the source tests the names of the entries, whatever their kind. In a file
  system where every entry lies in a directory these are the directories at or below the
  root with both entries, and with both files when no directory bears one of the two names.
  A directory that misses one of the two is not returned, a directory that has them is
  returned and searched further, no directory is returned twice, and a root that is not a
  directory (a file, or nothing) gives the empty list.
\<close>

theorem expand_paths_exact:
  "set (expand_paths fs root) =
     {p. inside root p \<and> (\<forall>q. prefix root q \<longrightarrow> prefix q p \<longrightarrow> is_dir fs q)
         \<and> exists_path fs (p @ [''best.pt'']) \<and> exists_path fs (p @ [''config.pkl''])}
   \<and> (parents_are_dirs fs \<longrightarrow>
        set (expand_paths fs root) =
          {p. inside root p \<and> is_dir fs p
              \<and> exists_path fs (p @ [''best.pt'']) \<and> exists_path fs (p @ [''config.pkl''])})
   \<and> (parents_are_dirs fs \<and> (\<forall>p. \<not> is_dir fs (p @ [''best.pt'']) \<and> \<not> is_dir fs (p @ [''config.pkl''])) \<longrightarrow>
        set (expand_paths fs root) =
          {p. inside root p \<and> is_dir fs p
              \<and> (\<exists>c. stat fs (p @ [''best.pt'']) = Some (File c))
              \<and> (\<exists>c. stat fs (p @ [''config.pkl'']) = Some (File c))})
   \<and> distinct (expand_paths fs root)
   \<and> (\<not> is_dir fs root \<longrightarrow> expand_paths fs root = [])"
proof (intro conjI impI)
  show "set (expand_paths fs root) =
     {p. inside root p \<and> (\<forall>q. prefix root q \<longrightarrow> prefix q p \<longrightarrow> is_dir fs q)
         \<and> exists_path fs (p @ [''best.pt'']) \<and> exists_path fs (p @ [''config.pkl''])}"
    by (auto simp: set_expand_paths below_def is_artifact_def)
  show "distinct (expand_paths fs root)" by (rule distinct_expand_paths)
next
  assume "parents_are_dirs fs"
  from below_wf[OF this]
  show "set (expand_paths fs root) =
          {p. inside root p \<and> is_dir fs p
              \<and> exists_path fs (p @ [''best.pt'']) \<and> exists_path fs (p @ [''config.pkl''])}"
    by (auto simp: set_expand_paths is_artifact_def)
next
  assume a: "parents_are_dirs fs \<and> (\<forall>p. \<not> is_dir fs (p @ [''best.pt'']) \<and> \<not> is_dir fs (p @ [''config.pkl'']))"
  have as_file: "exists_path fs q \<longleftrightarrow> (\<exists>c. stat fs q = Some (File c))" if "\<not> is_dir fs q" for q
  proof (cases "stat fs q")
    case None
    then show ?thesis by (simp add: exists_path_def)
  next
    case (Some e)
    with that show ?thesis by (cases e) (simp_all add: exists_path_def is_dir_def)
  qed
  from a have "is_artifact fs p \<longleftrightarrow>
      (\<exists>c. stat fs (p @ [''best.pt'']) = Some (File c)) \<and> (\<exists>c. stat fs (p @ [''config.pkl'']) = Some (File c))" for p
    by (simp add: is_artifact_def as_file)
  with a below_wf[of fs root]
  show "set (expand_paths fs root) =
          {p. inside root p \<and> is_dir fs p
              \<and> (\<exists>c. stat fs (p @ [''best.pt'']) = Some (File c))
              \<and> (\<exists>c. stat fs (p @ [''config.pkl'']) = Some (File c))}"
    by (auto simp: set_expand_paths)
next
  assume "\<not> is_dir fs root"
  then show "expand_paths fs root = []" by (subst expand_paths_unfold) simp
qed

lemma ex_tree_wf: "parents_are_dirs fs_tree"
  by code_simp

lemma ex_tree_scan:
  "expand_paths fs_tree [''log''] = [[''log'', ''a''], [''log'', ''a'', ''nested''], [''log'', ''c'', ''d'', ''e'']]"
  by code_simp

lemma ex_tree_file: "\<not> is_dir fs_tree [''log'', ''f'']"
  by code_simp

theorem expand_paths_exact_witness:
  "parents_are_dirs fs_tree
   \<and> expand_paths fs_tree [''log''] = [[''log'', ''a''], [''log'', ''a'', ''nested''], [''log'', ''c'', ''d'', ''e'']]
   \<and> set (expand_paths fs_tree [''log'']) =
       {p. inside [''log''] p \<and> is_dir fs_tree p
           \<and> exists_path fs_tree (p @ [''best.pt'']) \<and> exists_path fs_tree (p @ [''config.pkl''])}
   \<and> \<not> is_dir fs_tree [''log'', ''f'']
   \<and> expand_paths fs_tree [''log'', ''f''] = []"
proof -
  have a: "set (expand_paths fs_tree [''log'']) =
       {p. inside [''log''] p \<and> is_dir fs_tree p
           \<and> exists_path fs_tree (p @ [''best.pt'']) \<and> exists_path fs_tree (p @ [''config.pkl''])}"
    using expand_paths_exact[of fs_tree "[''log'']"] ex_tree_wf by blast
  have b: "expand_paths fs_tree [''log'', ''f''] = []"
    using expand_paths_exact[of fs_tree "[''log'', ''f'']"] ex_tree_file by blast
  show ?thesis
    using ex_tree_wf ex_tree_scan a ex_tree_file b by (intro conjI)
qed

section \<open>Properties of the job names\<close>

lemma pjoin_empty: "pjoin p [] = p"
  by (simp add: pjoin_def path_parts_def is_absolute_def)

lemma takeWhile_sep: "c \<notin> set x \<Longrightarrow> takeWhile (\<lambda>a. a \<noteq> c) (x @ c # r) = x"
  by (induction x) auto

lemma append_sep_inj:
  assumes "x @ c # r = y @ c # r'" and "c \<notin> set x" and "c \<notin> set y"
  shows "x = y \<and> r = r'"
proof -
  have "takeWhile (\<lambda>a. a \<noteq> c) (x @ c # r) = x" "takeWhile (\<lambda>a. a \<noteq> c) (y @ c # r') = y"
    using assms(2,3) by (simp_all add: takeWhile_sep)
  with assms(1) have "x = y" by simp
  with assms(1) show ?thesis by simp
qed

lemma join_single:
  assumes "c \<notin> set x" and "x \<noteq> []" and "join [c] ys = x" and "\<forall>y \<in> set ys. c \<notin> set y"
  shows "ys = [x]"
proof (cases ys)
  case Nil
  with assms(2,3) show ?thesis by simp
next
  case (Cons y ys')
  show ?thesis
  proof (cases ys')
    case Nil
    with Cons assms(3) show ?thesis by simp
  next
    case (Cons y2 ys2)
    with \<open>ys = y # ys'\<close> assms(3) have "x = y @ c # join [c] (y2 # ys2)" by simp
    with assms(1) show ?thesis by auto
  qed
qed

lemma join_inj:
  assumes "\<forall>x \<in> set xs \<union> set ys. x \<noteq> [] \<and> c \<notin> set x"
    and "join [c] xs = join [c] ys"
  shows "xs = ys"
  using assms
proof (induction xs arbitrary: ys)
  case Nil
  show ?case
  proof (cases ys)
    case Nil
    then show ?thesis by simp
  next
    case (Cons y ys')
    with Nil.prems show ?thesis by (cases ys') auto
  qed
next
  case (Cons x xs)
  show ?case
  proof (cases xs)
    case Nil
    from Cons.prems Nil have "ys = [x]"
      by (intro join_single) auto
    with Nil show ?thesis by simp
  next
    case xs: (Cons x2 xs2)
    show ?thesis
    proof (cases ys)
      case Nil
      with Cons.prems xs show ?thesis by auto
    next
      case ys: (Cons y ys')
      show ?thesis
      proof (cases ys')
        case Nil
        from Cons.prems ys Nil have "x # xs = [y]"
          by (intro join_single) auto
        with ys Nil show ?thesis by simp
      next
        case (Cons y2 ys2)
        with Cons.prems(2) xs ys
        have "x @ c # join [c] xs = y @ c # join [c] ys'" by simp
        from append_sep_inj[OF this] Cons.prems(1) ys have "x = y" "join [c] xs = join [c] ys'" by auto
        with Cons.IH[of ys'] Cons.prems(1) ys show ?thesis by auto
      qed
    qed
  qed
qed


lemma fold_update_other:
  "k \<notin> fst ` set c \<Longrightarrow> map_of (fold (\<lambda>(k, v). AList.update k v) c base) k = map_of base k"
  by (induction c arbitrary: base) (auto simp: update_conv')

lemma dict_merge_override:
  "distinct (map fst c) \<Longrightarrow> (k, v) \<in> set c \<Longrightarrow> map_of (dict_merge base c) k = Some v"
  unfolding dict_merge_def
proof (induction c arbitrary: base)
  case Nil
  then show ?case by simp
next
  case (Cons a c)
  obtain k0 v0 where a: "a = (k0, v0)" by (cases a)
  show ?case
  proof (cases "(k, v) = a")
    case True
    with a Cons.prems(1) have "k \<notin> fst ` set c" by auto
    from fold_update_other[OF this] True a show ?thesis by (simp add: update_conv')
  next
    case False
    with Cons.prems have "(k, v) \<in> set c" "distinct (map fst c)" by auto
    with Cons.IH[of "AList.update k0 v0 base"] a show ?thesis by simp
  qed
qed

lemma attr_items_all:
  "(\<And>k v. (k, v) \<in> set c \<Longrightarrow> map_of cfg k = Some v)
   \<Longrightarrow> attr_items cfg (map (\<lambda>a. (a, a)) (map fst c)) = Inr c"
proof (induction c)
  case Nil
  then show ?case by simp
next
  case (Cons a c)
  obtain k v where a: "a = (k, v)" by (cases a)
  have "map_of cfg k = Some v" using Cons.prems[of k v] a by simp
  moreover have "attr_items cfg (map (\<lambda>a. (a, a)) (map fst c)) = Inr c"
    by (rule Cons.IH) (use Cons.prems in auto)
  ultimately show ?case using a by (simp add: bind_err_def getattr_def)
qed

lemma trial_name_merge:
  assumes "distinct (map fst c)"
  shows "trial_name (dict_merge base c) (map fst c) = Inr (join ''_'' (map (py_str \<circ> snd) c))"
proof -
  have "attr_items (dict_merge base c) (map (\<lambda>a. (a, a)) (map fst c)) = Inr c"
    by (rule attr_items_all) (rule dict_merge_override[OF assms])
  then show ?thesis by (simp add: trial_name_def getattrs_def bind_err_def)
qed

lemma split_on_none: "c \<notin> set s \<Longrightarrow> split_on c s = [s]"
  by (induction s) auto

lemma set_join: "set (join sep xs) \<subseteq> set sep \<union> \<Union> (set ` set xs)"
  by (induction sep xs rule: join.induct) auto

lemma pjoin_simple:
  assumes "CHR ''/'' \<notin> set s" and "s \<noteq> []" and "s \<noteq> ''.''"
  shows "pjoin p s = p @ [s]"
proof -
  from assms(1,2) have "\<not> is_absolute s" by (cases s) (auto simp: is_absolute_def)
  with assms show ?thesis by (simp add: pjoin_def path_parts_def split_on_none)
qed

lemma join_plain:
  assumes "\<forall>x \<in> set xs. plain x" and "xs \<noteq> []"
  shows "join ''_'' xs \<noteq> [] \<and> join ''_'' xs \<noteq> ''.'' \<and> CHR ''/'' \<notin> set (join ''_'' xs)"
proof -
  have "CHR ''/'' \<notin> set (join ''_'' xs)"
    using set_join[of "''_''" xs] assms(1) by (auto simp: plain_def)
  moreover have "join ''_'' xs \<noteq> [] \<and> join ''_'' xs \<noteq> ''.''"
  proof (cases xs)
    case Nil
    with assms(2) show ?thesis by simp
  next
    case (Cons x ys)
    show ?thesis
    proof (cases ys)
      case Nil
      with Cons assms(1) show ?thesis by (simp add: plain_def)
    next
      case (Cons y zs)
      with \<open>xs = x # ys\<close> have j: "join ''_'' xs = x @ ''_'' @ join ''_'' (y # zs)" by simp
      have "x \<noteq> []" using assms(1) \<open>xs = x # ys\<close> by (simp add: plain_def)
      then obtain a x' where "x = a # x'" by (cases x) auto
      with j show ?thesis by simp
    qed
  qed
  ultimately show ?thesis by simp
qed

lemma pjoin_plain:
  assumes "\<forall>x \<in> set xs. plain x"
  shows "pjoin p (join ''_'' xs) = (if xs = [] then p else p @ [join ''_'' xs])"
proof (cases "xs = []")
  case True
  then show ?thesis by (simp add: pjoin_empty)
next
  case False
  from join_plain[OF assms False] False show ?thesis by (simp add: pjoin_simple)
qed

text \<open>
  C8, as amended. The name of a job directory is made of the rendered values of the
  overridden keys, joined by \<^verbatim>\<open>_\<close> in the order of the keys; the key names are not part of it.
  For two override-sets, of any numbers of keys, whose rendered values are non-empty, are not
  \<^verbatim>\<open>.\<close> and contain neither \<^verbatim>\<open>_\<close> nor \<^verbatim>\<open>/\<close>, the job directories below one output path are the
  same exactly when the two lists of rendered values are the same.
\<close>

theorem trial_dirs_injective_on_values:
  assumes "distinct (map fst c1)" and "distinct (map fst c2)"
    and "\<forall>v \<in> snd ` set c1 \<union> snd ` set c2. plain (py_str v)"
  shows "trial_name (dict_merge base c1) (map fst c1) = Inr (join ''_'' (map (py_str \<circ> snd) c1))
     \<and> trial_name (dict_merge base c2) (map fst c2) = Inr (join ''_'' (map (py_str \<circ> snd) c2))
     \<and> (run_trials out_path (dict_merge base c1) (map fst c1) 1
          = Inr [(pjoin out_path (join ''_'' (map (py_str \<circ> snd) c1)), dict_merge base c1, 0)])
     \<and> (pjoin out_path (join ''_'' (map (py_str \<circ> snd) c1)) = pjoin out_path (join ''_'' (map (py_str \<circ> snd) c2))
          \<longleftrightarrow> map (py_str \<circ> snd) c1 = map (py_str \<circ> snd) c2)"
proof -
  let ?t1 = "map (py_str \<circ> snd) c1" and ?t2 = "map (py_str \<circ> snd) c2"
  have n1: "trial_name (dict_merge base c1) (map fst c1) = Inr (join ''_'' ?t1)"
    by (rule trial_name_merge[OF assms(1)])
  have n2: "trial_name (dict_merge base c2) (map fst c2) = Inr (join ''_'' ?t2)"
    by (rule trial_name_merge[OF assms(2)])
  have r1: "run_trials out_path (dict_merge base c1) (map fst c1) 1
          = Inr [(pjoin out_path (join ''_'' ?t1), dict_merge base c1, 0)]"
    by (simp add: run_trials_def n1 bind_err_def)
  have p1: "\<forall>x \<in> set ?t1. plain x" and p2: "\<forall>x \<in> set ?t2. plain x"
    using assms(3) by auto
  have sep: "\<forall>x \<in> set ?t1 \<union> set ?t2. x \<noteq> [] \<and> CHR ''_'' \<notin> set x"
    using p1 p2 by (auto simp: plain_def)
  have "?t1 = ?t2" if eq: "pjoin out_path (join ''_'' ?t1) = pjoin out_path (join ''_'' ?t2)"
  proof -
    from eq have e: "(if ?t1 = [] then out_path else out_path @ [join ''_'' ?t1])
        = (if ?t2 = [] then out_path else out_path @ [join ''_'' ?t2])"
      by (simp only: pjoin_plain[OF p1] pjoin_plain[OF p2])
    show ?thesis
    proof (cases "?t1 = []")
      case True
      with e show ?thesis by (cases "?t2 = []") simp_all
    next
      case False
      with e have ne: "?t2 \<noteq> []" by (cases "?t2 = []") simp_all
      with e False have "join ''_'' ?t1 = join ''_'' ?t2" by simp
      with sep show ?thesis using join_inj[of ?t1 ?t2 "CHR ''_''"] by simp
    qed
  qed
  then have "pjoin out_path (join ''_'' ?t1) = pjoin out_path (join ''_'' ?t2) \<longleftrightarrow> ?t1 = ?t2"
    by auto
  with n1 n2 r1 show ?thesis by simp
qed

lemma ex_plain: "\<forall>v \<in> snd ` set [(''learning_rate'', PFloat ''0.01'')] \<union> snd ` set [(''learning_rate'', PFloat ''0.001'')].
    plain (py_str v)"
  by code_simp

lemma ex_names_differ:
  "map (py_str \<circ> snd) [(''learning_rate'', PFloat ''0.01'')] \<noteq> map (py_str \<circ> snd) [(''learning_rate'', PFloat ''0.001'')]"
  by code_simp

lemma ex_plain_two: "\<forall>v \<in> snd ` set [(''learning_rate'', PFloat ''0.01'')]
      \<union> snd ` set [(''learning_rate'', PFloat ''0.01''), (''gamma'', PFloat ''0.9'')].
    plain (py_str v)"
  by code_simp

lemma ex_lengths_differ:
  "map (py_str \<circ> snd) [(''learning_rate'', PFloat ''0.01'')]
     \<noteq> map (py_str \<circ> snd) [(''learning_rate'', PFloat ''0.01''), (''gamma'', PFloat ''0.9'')]"
  by code_simp

theorem trial_dirs_injective_on_values_witness:
  "plain (py_str (PFloat ''0.01'')) \<and> plain (py_str (PFloat ''0.001'')) \<and> plain (py_str (PFloat ''0.9''))
   \<and> trial_name (dict_merge default_cfg [(''learning_rate'', PFloat ''0.01'')]) (map fst [(''learning_rate'', PFloat ''0.01'')])
       = Inr (join ''_'' (map (py_str \<circ> snd) [(''learning_rate'', PFloat ''0.01'')]))
   \<and> pjoin [''log'', ''lr''] (join ''_'' (map (py_str \<circ> snd) [(''learning_rate'', PFloat ''0.01'')]))
       \<noteq> pjoin [''log'', ''lr''] (join ''_'' (map (py_str \<circ> snd) [(''learning_rate'', PFloat ''0.001'')]))
   \<and> pjoin [''log'', ''lr''] (join ''_'' (map (py_str \<circ> snd) [(''learning_rate'', PFloat ''0.01'')]))
       \<noteq> pjoin [''log'', ''lr''] (join ''_'' (map (py_str \<circ> snd)
            [(''learning_rate'', PFloat ''0.01''), (''gamma'', PFloat ''0.9'')]))"
  using trial_dirs_injective_on_values[where ?c1.0 = "[(''learning_rate'', PFloat ''0.01'')]"
      and ?c2.0 = "[(''learning_rate'', PFloat ''0.001'')]" and base = default_cfg and out_path = "[''log'', ''lr'']",
      OF _ _ ex_plain]
    trial_dirs_injective_on_values[where ?c1.0 = "[(''learning_rate'', PFloat ''0.01'')]"
      and ?c2.0 = "[(''learning_rate'', PFloat ''0.01''), (''gamma'', PFloat ''0.9'')]"
      and base = default_cfg and out_path = "[''log'', ''lr'']",
      OF _ _ ex_plain_two]
    ex_plain ex_plain_two ex_names_differ ex_lengths_differ
  by simp


text \<open>
  The claim as stated fails: the override-sets \<^verbatim>\<open>{learning_rate: 0.01}\<close> and
  \<^verbatim>\<open>{action_noise: 0.01}\<close> differ, give different configurations, and are given the same
  directory \<^verbatim>\<open>0.01\<close>.
\<close>

theorem trial_names_collide_counterexample:
  "run_trials [''log'', ''x''] (dict_merge default_cfg [(''learning_rate'', PFloat ''0.01'')])
       (map fst [(''learning_rate'', PFloat ''0.01'')]) 1
     = Inr [([''log'', ''x'', ''0.01''], dict_merge default_cfg [(''learning_rate'', PFloat ''0.01'')], 0)]
   \<and> run_trials [''log'', ''x''] (dict_merge default_cfg [(''action_noise'', PFloat ''0.01'')])
       (map fst [(''action_noise'', PFloat ''0.01'')]) 1
     = Inr [([''log'', ''x'', ''0.01''], dict_merge default_cfg [(''action_noise'', PFloat ''0.01'')], 0)]
   \<and> dict_merge default_cfg [(''learning_rate'', PFloat ''0.01'')]
       \<noteq> dict_merge default_cfg [(''action_noise'', PFloat ''0.01'')]"
  by code_simp


text \<open>
  C9, as amended. An override-set without keys is accepted: no statement of the expansion
  raises or warns. Its name is the empty string, so its jobs are placed in the output path
  of the experiment itself, with the default configuration.
\<close>

theorem empty_override_set_is_accepted:
  "trial_name cfg [] = Inr []
   \<and> run_trials base_dir cfg [] num_trials = Inr (map (\<lambda>i. (base_dir, cfg, i)) [0..<nat num_trials])
   \<and> config_jobs out_path num_trials [[]] = Inr (map (\<lambda>i. (out_path, default_cfg, i)) [0..<nat num_trials])"
  by (simp add: trial_name_def getattrs_def run_trials_def bind_err_def pjoin_empty dict_merge_def)


text \<open>
  The claim as stated fails: with the empty override-set \<^verbatim>\<open>run_experiments\<close> returns normally,
  and the events show the job trained in \<^verbatim>\<open>log/none/run-0\<close>.
\<close>

theorem empty_override_set_counterexample:
  "fst (run_experiments learn_ok modules_none [''configs/none.py''] 1 1 [''log''] w_empty) = None
   \<and> events (snd (run_experiments learn_ok modules_none [''configs/none.py''] 1 1 [''log''] w_empty)) =
       [Writer [''log'', ''none'', ''run-0''],
        Wrote [''log'', ''none'', ''run-0'', ''config.txt''] (ConfigText default_cfg),
        Wrote [''log'', ''none'', ''run-0'', ''config.pkl''] (Pickle default_cfg),
        Learn [''log'', ''none'', ''run-0''],
        Wrote [''log'', ''none'', ''run-0'', ''completed''] (Text [])]"
  by code_simp


section \<open>Properties of the summarizer\<close>

text \<open>
  C10, as amended. The reduction is the standard deviation when \<^verbatim>\<open>stddev\<close> is set, whatever
  \<^verbatim>\<open>stderr\<close> is; when \<^verbatim>\<open>stderr\<close> is set and \<^verbatim>\<open>stddev\<close> is not, the choice raises
  \<^verbatim>\<open>NotImplementedError\<close> (the specification's \<^verbatim>\<open>NotSupportedError\<close>); otherwise it is the
  median. Once \<^verbatim>\<open>data.csv\<close> is read and grouped, \<^verbatim>\<open>main\<close> with \<^verbatim>\<open>stderr\<close> and without \<^verbatim>\<open>stddev\<close>
  ends in that error, with no reduction computed and nothing printed.
\<close>

theorem reduction_choice:
  "(stddev a \<longrightarrow> reduction a = Inr ''std'')
   \<and> (\<not> stddev a \<and> stderr a \<longrightarrow> reduction a = Inl NotImplementedError)
   \<and> (\<not> stddev a \<and> \<not> stderr a \<longrightarrow> reduction a = Inr ''median'')
   \<and> (\<not> stddev a \<and> stderr a \<and> read_csv fs (path @ [''data.csv'']) = Inr df
        \<and> groupby pd df [''discretize'', ''action_scale''] = Inr g
      \<longrightarrow> main pd a path fs = Inl NotImplementedError)"
  by (simp add: reduction_def main_def bind_err_def)

lemma ex_csv: "read_csv fs_csv ([] @ [''data.csv'']) = Inr [[(''discretize'', PBool True), (''action_scale'', PInt 8),
      (''steps'', PFloat ''12.5''), (''fractional'', PFloat ''0.5''), (''linf'', PFloat ''0.25'')]]"
  by code_simp

theorem reduction_choice_witness:
  "reduction \<lparr>stddev = False, stderr = True, latex = False\<rparr> = Inl NotImplementedError
   \<and> main pd_stub \<lparr>stddev = False, stderr = True, latex = False\<rparr> [] fs_csv = Inl NotImplementedError
   \<and> reduction \<lparr>stddev = True, stderr = False, latex = False\<rparr> = Inr ''std''
   \<and> reduction \<lparr>stddev = False, stderr = False, latex = False\<rparr> = Inr ''median''"
  using reduction_choice[where a = "\<lparr>stddev = False, stderr = True, latex = False\<rparr>" and fs = fs_csv
      and path = "[]" and pd = pd_stub and df = "[[(''discretize'', PBool True), (''action_scale'', PInt 8),
      (''steps'', PFloat ''12.5''), (''fractional'', PFloat ''0.5''), (''linf'', PFloat ''0.25'')]]"
      and g = "[[(''discretize'', PBool True), (''action_scale'', PInt 8),
      (''steps'', PFloat ''12.5''), (''fractional'', PFloat ''0.5''), (''linf'', PFloat ''0.25'')]]"] ex_csv
    reduction_choice[where a = "\<lparr>stddev = True, stderr = False, latex = False\<rparr>"]
    reduction_choice[where a = "\<lparr>stddev = False, stderr = False, latex = False\<rparr>"]
  by (simp add: pd_stub_def)


text \<open>
  The claim as stated fails: asked for the standard error together with the standard
  deviation, \<^verbatim>\<open>main\<close> does not fail; it prints the standard deviations.
\<close>

theorem stderr_ignored_with_stddev_counterexample:
  "reduction \<lparr>stddev = True, stderr = True, latex = False\<rparr> = Inr ''std''
   \<and> main pd_stub \<lparr>stddev = True, stderr = True, latex = False\<rparr> [] fs_csv = Inr ''std''"
  by code_simp


section \<open>Properties of the aggregator\<close>

lemma run_all_Inr: "run_all f xs = Inr ys \<longleftrightarrow> map f xs = map Inr ys"
proof (induction xs arbitrary: ys)
  case Nil
  then show ?case by auto
next
  case (Cons x xs)
  show ?case
  proof (cases "f x")
    case (Inl e)
    then show ?thesis by (cases ys) (auto simp: bind_err_def)
  next
    case fx: (Inr y)
    show ?thesis
    proof (cases "run_all f xs")
      case (Inl e)
      then have "map f xs \<noteq> map Inr zs" for zs using Cons.IH[of zs] by simp
      with Inl fx show ?thesis by (cases ys) (auto simp: bind_err_def)
    next
      case (Inr zs)
      then have "map f xs = map Inr zs" using Cons.IH[of zs] by simp
      with Inr fx show ?thesis by (cases ys) (auto simp: bind_err_def)
    qed
  qed
qed

lemma run_all_Inl: "run_all f xs = Inl e \<Longrightarrow> \<exists>x \<in> set xs. f x = Inl e"
  by (induction xs) (auto simp: bind_err_def split: sum.splits)

lemma run_all_fails: "x \<in> set xs \<Longrightarrow> f x = Inl e \<Longrightarrow> \<exists>e'. run_all f xs = Inl e'"
  by (induction xs) (auto simp: bind_err_def split: sum.splits)

lemma length_metric_jobs: "length (metric_jobs paths) = length paths * 2"
  by (simp add: metric_jobs_def)

lemma set_metric_jobs: "set (metric_jobs paths) = set paths \<times> UNIV"
proof -
  have "(UNIV :: bool set) = {True, False}" by auto
  then show ?thesis by (auto simp: metric_jobs_def)
qed

lemma distinct_metric_jobs: "distinct paths \<Longrightarrow> distinct (metric_jobs paths)"
  by (auto simp: metric_jobs_def distinct_map inj_on_def)

lemma count_tagged: "count_list (map (\<lambda>p. (p, b)) paths) (q, d) = (if b = d then count_list paths q else 0)"
  by (induction paths) auto

lemma count_metric_jobs: "count_list (metric_jobs paths) (p, d) = count_list paths p"
  by (cases d) (simp_all add: metric_jobs_def count_tagged)

lemma distinct_discovered_one: "length path_strs = 1 \<Longrightarrow> distinct (discovered fs path_strs)"
  by (cases path_strs) (simp_all add: discovered_def distinct_expand_paths)


lemma step_other: "k \<noteq> k' \<Longrightarrow> hasattr (if b then setattr c k' v else c) k = hasattr c k"
  by (simp add: hasattr_def setattr_def update_conv')

lemma patch_no_uuid: "hasattr (patch_old_configs cfg) ''uuid'' = hasattr cfg ''uuid''"
  unfolding patch_old_configs_def Let_def
  by (simp add: step_other split del: if_split)

lemma collect_metrics_Inr:
  assumes "collect_metrics evaluate fs p out d sid = Inr row"
  obtains cfg0 model st m where
    "open_r fs (p @ [''config.pkl'']) = Inr (Pickle cfg0)"
    "evaluate (patch_old_configs cfg0) model st d = Inr m"
    "row = dict_of_items
       ([(''uuid'', PStr sid), (''steps'', m_steps m), (''success_rate'', m_success_rate m)]
        @ m_entropies m
        @ [(''discretize'', PBool d), (''usages'', m_usages m), (''vectors'', m_vectors m)]
        @ patch_old_configs cfg0)"
  using assms
  by (auto simp: collect_metrics_def bind_err_def pkl_load_def Let_def split: sum.splits content.splits)

lemma row_uuid:
  assumes "collect_metrics evaluate fs p out d sid = Inr row"
    and "\<forall>cfg. open_r fs (p @ [''config.pkl'']) = Inr (Pickle cfg) \<longrightarrow> \<not> hasattr cfg ''uuid''"
    and "\<forall>cfg model st d r. evaluate cfg model st d = Inr r \<longrightarrow> ''uuid'' \<notin> fst ` set (m_entropies r)"
  shows "map_of row ''uuid'' = Some (PStr sid)"
  using assms(1)
proof (cases rule: collect_metrics_Inr)
  case (1 cfg0 model st m)
  from assms(2) 1(1) have "\<not> hasattr (patch_old_configs cfg0) ''uuid''" by (simp add: patch_no_uuid)
  then have c: "''uuid'' \<notin> fst ` set (patch_old_configs cfg0)"
    by (simp add: hasattr_def map_of_eq_None_iff)
  from assms(3) 1(2) have e: "''uuid'' \<notin> fst ` set (m_entropies m)" by blast
  let ?rest = "[(''steps'', m_steps m), (''success_rate'', m_success_rate m)]
        @ m_entropies m
        @ [(''discretize'', PBool d), (''usages'', m_usages m), (''vectors'', m_vectors m)]
        @ patch_old_configs cfg0"
  have "''uuid'' \<notin> fst ` set ?rest" using c e by (auto simp: image_Un)
  from fold_update_other[OF this, of "[(''uuid'', PStr sid)]"] 1(3)
  show ?thesis by (simp add: dict_of_items_def dict_merge_def)
qed

lemma aggregate_ok:
  assumes "aggregate_results evaluate uuid4 path_strs out_dir n_jobs w = (None, w')"
  obtains rows where
    "run_all (\<lambda>(i, p, d). collect_metrics evaluate (files w) p out_dir d (uuid4 i))
       (enumerate 0 (metric_jobs (discovered (files w) path_strs))) = Inr rows"
    "write_step (out_dir @ [''data.csv'']) (Csv rows) w = (None, w')"
  using assms
  by (auto simp: aggregate_results_def Let_def parallel_map_def pd_concat_def
      split: sum.splits if_splits)

lemma inj_uuid_ex: "inj uuid_ex"
proof (rule injI)
  fix i j assume "uuid_ex i = uuid_ex j"
  then have "length (uuid_ex i) = length (uuid_ex j)" by simp
  then show "i = j" by (simp add: uuid_ex_def)
qed

lemma collect_metrics_succeeds:
  assumes "open_r fs (p @ [''config.pkl'']) = Inr (Pickle cfg0)"
    and "make_env_kwargs (patch_old_configs cfg0) = Inr kw"
    and "make_model (patch_old_configs cfg0) = Inr model"
    and "open_r fs (p @ [''best.pt'']) = Inr st"
    and "evaluate (patch_old_configs cfg0) model st d = Inr m"
  shows "\<exists>row. collect_metrics evaluate fs p out d sid = Inr row"
  using assms by (simp add: collect_metrics_def bind_err_def pkl_load_def Let_def)

lemma collect_metrics_unpickling:
  assumes "open_r fs (p @ [''config.pkl'']) = Inr (Text t)"
  shows "collect_metrics evaluate fs p out d sid = Inl (UnpicklingError (p @ [''config.pkl'']))"
  using assms by (simp add: collect_metrics_def bind_err_def pkl_load_def)

lemma collect_metrics_env_error:
  assumes "open_r fs (p @ [''config.pkl'']) = Inr (Pickle cfg0)"
    and "make_env_kwargs (patch_old_configs cfg0) = Inl e"
  shows "collect_metrics evaluate fs p out d sid = Inl e"
  using assms by (simp add: collect_metrics_def bind_err_def pkl_load_def Let_def)

lemma run_all_succeeds: "(\<forall>x \<in> set xs. \<exists>y. f x = Inr y) \<Longrightarrow> \<exists>ys. run_all f xs = Inr ys"
  by (induction xs) (auto simp: bind_err_def)

lemma aggregate_succeeds:
  assumes "n_jobs \<noteq> 0" and "discovered (files w) path_strs \<noteq> []"
    and "\<forall>p \<in> set (discovered (files w) path_strs). \<forall>d i. \<exists>row.
           collect_metrics evaluate (files w) p out_dir d (uuid4 i) = Inr row"
    and "is_dir (files w) out_dir" and "\<not> is_dir (files w) (out_dir @ [''data.csv''])"
  shows "\<exists>w'. aggregate_results evaluate uuid4 path_strs out_dir n_jobs w = (None, w')"
proof -
  let ?jobs = "metric_jobs (discovered (files w) path_strs)"
  let ?f = "\<lambda>(i, p, d). collect_metrics evaluate (files w) p out_dir d (uuid4 i)"
  have "\<forall>x \<in> set (enumerate 0 ?jobs). \<exists>y. ?f x = Inr y"
    using assms(3) by (auto simp: in_set_enumerate_eq set_metric_jobs dest!: nth_mem)
  from run_all_succeeds[OF this] obtain rows where ra: "run_all ?f (enumerate 0 ?jobs) = Inr rows" ..
  then have "map ?f (enumerate 0 ?jobs) = map Inr rows" by (simp add: run_all_Inr)
  then have "length (map ?f (enumerate 0 ?jobs)) = length (map Inr rows)" by simp
  with assms(2) have ne: "rows \<noteq> []" by (auto simp: length_metric_jobs)
  have "\<exists>fs'. open_w (files w) (out_dir @ [''data.csv'']) (Csv rows) = Inr fs'"
    using assms(4,5) by (auto simp: open_w_def is_dir_def split: option.splits entry.splits)
  then obtain w' where "write_step (out_dir @ [''data.csv'']) (Csv rows) w = (None, w')"
    by (auto simp: write_step_def fs_step_def)
  with ra ne assms(1) show ?thesis
    by (auto simp: aggregate_results_def Let_def parallel_map_def pd_concat_def)
qed


lemma aggregate_rows:
  assumes "aggregate_results evaluate uuid4 path_strs out_dir n_jobs w = (None, w')"
  shows "\<exists>rows.
      stat (files w') (out_dir @ [''data.csv'']) = Some (File (Csv rows))
    \<and> events w' = events w @ [Wrote (out_dir @ [''data.csv'']) (Csv rows)]
    \<and> length rows = length (discovered (files w) path_strs) * 2
    \<and> length rows = length (metric_jobs (discovered (files w) path_strs))
    \<and> (\<forall>i < length rows.
          collect_metrics evaluate (files w)
            (fst (metric_jobs (discovered (files w) path_strs) ! i)) out_dir
            (snd (metric_jobs (discovered (files w) path_strs) ! i)) (uuid4 i) = Inr (rows ! i))
    \<and> (inj uuid4
        \<and> (\<forall>p \<in> set (discovered (files w) path_strs). \<forall>cfg.
            open_r (files w) (p @ [''config.pkl'']) = Inr (Pickle cfg) \<longrightarrow> \<not> hasattr cfg ''uuid'')
        \<and> (\<forall>cfg model st d r. evaluate cfg model st d = Inr r \<longrightarrow> ''uuid'' \<notin> fst ` set (m_entropies r))
        \<longrightarrow> (\<forall>i < length rows. map_of (rows ! i) ''uuid'' = Some (PStr (uuid4 i)))
            \<and> distinct (map (\<lambda>r. map_of r ''uuid'') rows)
            \<and> distinct rows)"
proof -
  let ?paths = "discovered (files w) path_strs"
  let ?jobs = "metric_jobs ?paths"
  let ?f = "\<lambda>(i, p, d). collect_metrics evaluate (files w) p out_dir d (uuid4 i)"
  from assms(1) obtain rows where
    ra: "run_all ?f (enumerate 0 ?jobs) = Inr rows"
    and wr: "write_step (out_dir @ [''data.csv'']) (Csv rows) w = (None, w')"
    by (rule aggregate_ok)
  from ra have m: "map ?f (enumerate 0 ?jobs) = map Inr rows" by (simp add: run_all_Inr)
  then have "length (map ?f (enumerate 0 ?jobs)) = length (map Inr rows)" by simp
  then have len: "length rows = length ?jobs" by simp
  have nth: "collect_metrics evaluate (files w) (fst (?jobs ! i)) out_dir (snd (?jobs ! i)) (uuid4 i) = Inr (rows ! i)"
    if "i < length rows" for i
  proof -
    from that len have i: "i < length ?jobs" by simp
    from m have "map ?f (enumerate 0 ?jobs) ! i = map Inr rows ! i" by simp
    with i that show ?thesis by (simp add: nth_enumerate_eq split: prod.splits)
  qed
  from wr have st: "stat (files w') (out_dir @ [''data.csv'']) = Some (File (Csv rows))"
    and ev: "events w' = events w @ [Wrote (out_dir @ [''data.csv'']) (Csv rows)]"
    by (cases rule: write_step_cases; simp)+
  have ids: "(\<forall>i < length rows. map_of (rows ! i) ''uuid'' = Some (PStr (uuid4 i)))
            \<and> distinct (map (\<lambda>r. map_of r ''uuid'') rows) \<and> distinct rows"
    if h2: "inj uuid4"
      and h3: "\<forall>p \<in> set ?paths. \<forall>cfg.
            open_r (files w) (p @ [''config.pkl'']) = Inr (Pickle cfg) \<longrightarrow> \<not> hasattr cfg ''uuid''"
      and h4: "\<forall>cfg model st d r. evaluate cfg model st d = Inr r \<longrightarrow> ''uuid'' \<notin> fst ` set (m_entropies r)"
  proof -
    have u: "map_of (rows ! i) ''uuid'' = Some (PStr (uuid4 i))" if "i < length rows" for i
    proof -
      from that len have "?jobs ! i \<in> set ?jobs" by simp
      then have "fst (?jobs ! i) \<in> set ?paths" by (auto simp: set_metric_jobs)
      with h3 have "\<forall>cfg. open_r (files w) (fst (?jobs ! i) @ [''config.pkl'']) = Inr (Pickle cfg)
          \<longrightarrow> \<not> hasattr cfg ''uuid''" by blast
      from row_uuid[OF nth[OF that] this h4] show ?thesis .
    qed
    have "map (\<lambda>r. map_of r ''uuid'') rows = map (\<lambda>i. Some (PStr (uuid4 i))) [0..<length rows]"
      by (rule nth_equalityI) (simp_all add: u)
    moreover have "distinct (map (\<lambda>i. Some (PStr (uuid4 i))) [0..<length rows])"
      using h2 by (auto simp: distinct_map inj_on_def dest: injD)
    ultimately have d: "distinct (map (\<lambda>r. map_of r ''uuid'') rows)" by simp
    then have "distinct rows" by (simp add: distinct_map)
    with u d show ?thesis by blast
  qed
  from st ev len nth ids show ?thesis
    by (intro exI[of _ rows]) (simp add: length_metric_jobs)
qed

lemma aggregate_nothing:
  assumes "discovered (files w) path_strs = []"
  shows "aggregate_results evaluate uuid4 path_strs out_dir n_jobs w =
     (Some (ValueError (if n_jobs = 0 then ''n_jobs == 0 in Parallel has no meaning''
                        else ''No objects to concatenate'')), w)"
  using assms
  by (simp add: aggregate_results_def Let_def metric_jobs_def parallel_map_def pd_concat_def)


text \<open>
  C5, as amended. The job list holds every discovered path once with the discretized and once
  with the continuous variant, a path as often as it was discovered: always once for a single
  root, and then every pair of an artifact and a variant occurs exactly once. When
  \<^verbatim>\<open>aggregate_results\<close> returns, \<^verbatim>\<open>data.csv\<close> holds a table with two rows for each discovered path,
  row \<open>i\<close> being the result of the extraction of job \<open>i\<close>. Provided the identifiers drawn never
  repeat, and no stored configuration and no metric dictionary has a field named \<^verbatim>\<open>uuid\<close> of
  its own, the \<^verbatim>\<open>uuid\<close> of row \<open>i\<close> is the identifier drawn in job \<open>i\<close>, no two rows share an
  identifier, and the rows are pairwise different. When no artifact is discovered,
  \<^verbatim>\<open>aggregate_results\<close> raises and leaves the world as it was, no table is written: pandas
  refuses to concatenate an empty list (if joblib has not refused \<^verbatim>\<open>n_jobs == 0\<close> before).
\<close>

theorem aggregate_rows_match_jobs:
  "(\<forall>p d. count_list (metric_jobs (discovered (files w) path_strs)) (p, d)
          = count_list (discovered (files w) path_strs) p)
   \<and> (length path_strs = 1 \<longrightarrow> distinct (discovered (files w) path_strs))
   \<and> (distinct (discovered (files w) path_strs) \<longrightarrow>
          distinct (metric_jobs (discovered (files w) path_strs))
          \<and> set (metric_jobs (discovered (files w) path_strs)) = set (discovered (files w) path_strs) \<times> UNIV)
   \<and> (aggregate_results evaluate uuid4 path_strs out_dir n_jobs w = (None, w') \<longrightarrow>
        (\<exists>rows.
            stat (files w') (out_dir @ [''data.csv'']) = Some (File (Csv rows))
          \<and> events w' = events w @ [Wrote (out_dir @ [''data.csv'']) (Csv rows)]
          \<and> length rows = length (discovered (files w) path_strs) * 2
          \<and> length rows = length (metric_jobs (discovered (files w) path_strs))
          \<and> (\<forall>i < length rows.
                collect_metrics evaluate (files w)
                  (fst (metric_jobs (discovered (files w) path_strs) ! i)) out_dir
                  (snd (metric_jobs (discovered (files w) path_strs) ! i)) (uuid4 i) = Inr (rows ! i))
          \<and> (inj uuid4
              \<and> (\<forall>p \<in> set (discovered (files w) path_strs). \<forall>cfg.
                  open_r (files w) (p @ [''config.pkl'']) = Inr (Pickle cfg) \<longrightarrow> \<not> hasattr cfg ''uuid'')
              \<and> (\<forall>cfg model st d r. evaluate cfg model st d = Inr r \<longrightarrow> ''uuid'' \<notin> fst ` set (m_entropies r))
              \<longrightarrow> (\<forall>i < length rows. map_of (rows ! i) ''uuid'' = Some (PStr (uuid4 i)))
                  \<and> distinct (map (\<lambda>r. map_of r ''uuid'') rows)
                  \<and> distinct rows)))
   \<and> (discovered (files w) path_strs = [] \<longrightarrow>
        aggregate_results evaluate uuid4 path_strs out_dir n_jobs w =
          (Some (ValueError (if n_jobs = 0 then ''n_jobs == 0 in Parallel has no meaning''
                             else ''No objects to concatenate'')), w))"
proof (intro conjI impI allI)
  fix p d
  show "count_list (metric_jobs (discovered (files w) path_strs)) (p, d)
          = count_list (discovered (files w) path_strs) p"
    by (rule count_metric_jobs)
next
  assume "length path_strs = 1"
  then show "distinct (discovered (files w) path_strs)" by (rule distinct_discovered_one)
next
  assume "distinct (discovered (files w) path_strs)"
  then show "distinct (metric_jobs (discovered (files w) path_strs))" by (rule distinct_metric_jobs)
next
  show "set (metric_jobs (discovered (files w) path_strs)) = set (discovered (files w) path_strs) \<times> UNIV"
    by (rule set_metric_jobs)
next
  assume "aggregate_results evaluate uuid4 path_strs out_dir n_jobs w = (None, w')"
  then show "\<exists>rows.
            stat (files w') (out_dir @ [''data.csv'']) = Some (File (Csv rows))
          \<and> events w' = events w @ [Wrote (out_dir @ [''data.csv'']) (Csv rows)]
          \<and> length rows = length (discovered (files w) path_strs) * 2
          \<and> length rows = length (metric_jobs (discovered (files w) path_strs))
          \<and> (\<forall>i < length rows.
                collect_metrics evaluate (files w)
                  (fst (metric_jobs (discovered (files w) path_strs) ! i)) out_dir
                  (snd (metric_jobs (discovered (files w) path_strs) ! i)) (uuid4 i) = Inr (rows ! i))
          \<and> (inj uuid4
              \<and> (\<forall>p \<in> set (discovered (files w) path_strs). \<forall>cfg.
                  open_r (files w) (p @ [''config.pkl'']) = Inr (Pickle cfg) \<longrightarrow> \<not> hasattr cfg ''uuid'')
              \<and> (\<forall>cfg model st d r. evaluate cfg model st d = Inr r \<longrightarrow> ''uuid'' \<notin> fst ` set (m_entropies r))
              \<longrightarrow> (\<forall>i < length rows. map_of (rows ! i) ''uuid'' = Some (PStr (uuid4 i)))
                  \<and> distinct (map (\<lambda>r. map_of r ''uuid'') rows)
                  \<and> distinct rows)"
    by (rule aggregate_rows)
next
  assume "discovered (files w) path_strs = []"
  then show "aggregate_results evaluate uuid4 path_strs out_dir n_jobs w =
          (Some (ValueError (if n_jobs = 0 then ''n_jobs == 0 in Parallel has no meaning''
                             else ''No objects to concatenate'')), w)"
    by (rule aggregate_nothing)
qed

lemma ex_patch_default: "patch_old_configs default_cfg = default_cfg"
  by code_simp

lemma ex_env_default: "\<not> isl (make_env_kwargs default_cfg)"
  by code_simp

lemma ex_model_default: "\<not> isl (make_model default_cfg)"
  by code_simp

lemma ex_agg_paths:
  "discovered (files w_tree) [''log''] = [[''log'', ''a''], [''log'', ''a'', ''nested''], [''log'', ''c'', ''d'', ''e'']]"
  by code_simp

lemma ex_agg_files:
  "open_r (files w_tree) ([''log'', ''a''] @ [''config.pkl'']) = Inr (Pickle default_cfg)"
  "open_r (files w_tree) ([''log'', ''a'', ''nested''] @ [''config.pkl'']) = Inr (Pickle default_cfg)"
  "open_r (files w_tree) ([''log'', ''c'', ''d'', ''e''] @ [''config.pkl'']) = Inr (Pickle default_cfg)"
  "open_r (files w_tree) ([''log'', ''a''] @ [''best.pt'']) = Inr (Blob [])"
  "open_r (files w_tree) ([''log'', ''a'', ''nested''] @ [''best.pt'']) = Inr (Blob [])"
  "open_r (files w_tree) ([''log'', ''c'', ''d'', ''e''] @ [''best.pt'']) = Inr (Blob [])"
  "\<not> hasattr default_cfg ''uuid''"
  "is_dir (files w_tree) [''log'']"
  "\<not> is_dir (files w_tree) ([''log''] @ [''data.csv''])"
  by code_simp+

lemma ex_agg_extracts:
  "\<forall>p \<in> set (discovered (files w_tree) [''log'']). \<forall>d i. \<exists>row.
      collect_metrics eval_ok (files w_tree) p [''log''] d (uuid_ex i) = Inr row"
proof -
  obtain kw model where km: "make_env_kwargs default_cfg = Inr kw" "make_model default_cfg = Inr model"
    using ex_env_default ex_model_default
    by (cases "make_env_kwargs default_cfg"; cases "make_model default_cfg") auto
  have "\<exists>row. collect_metrics eval_ok (files w_tree) p [''log''] d (uuid_ex i) = Inr row"
    if "open_r (files w_tree) (p @ [''config.pkl'']) = Inr (Pickle default_cfg)"
      and "open_r (files w_tree) (p @ [''best.pt'']) = Inr (Blob [])" for p d i
    by (rule collect_metrics_succeeds[OF that(1) _ _ that(2)])
       (simp_all add: ex_patch_default km eval_ok_def)
  with ex_agg_files show ?thesis unfolding ex_agg_paths by (simp del: append.simps)
qed

lemma ex_agg_no_uuid:
  "\<forall>p \<in> set (discovered (files w_tree) [''log'']). \<forall>cfg.
      open_r (files w_tree) (p @ [''config.pkl'']) = Inr (Pickle cfg) \<longrightarrow> \<not> hasattr cfg ''uuid''"
  unfolding ex_agg_paths using ex_agg_files by (simp del: append.simps)

lemma ex_eval_no_uuid:
  "\<forall>cfg model st d r. eval_ok cfg model st d = Inr r \<longrightarrow> ''uuid'' \<notin> fst ` set (m_entropies r)"
  by (auto simp: eval_ok_def)

lemma ex_agg_nothing: "discovered (files w_empty) [''log''] = []"
  by code_simp

theorem aggregate_rows_match_jobs_witness:
  "(\<exists>w'. aggregate_results eval_ok uuid_ex [''log''] [''log''] 1 w_tree = (None, w')
     \<and> (\<exists>rows. stat (files w') ([''log''] @ [''data.csv'']) = Some (File (Csv rows))
          \<and> length rows = 6
          \<and> map_of (rows ! 0) ''uuid'' = Some (PStr (uuid_ex 0))
          \<and> distinct (map (\<lambda>r. map_of r ''uuid'') rows)))
   \<and> distinct (discovered (files w_tree) [''log''])
   \<and> discovered (files w_empty) [''log''] = []
   \<and> aggregate_results eval_ok uuid_ex [''log''] [''log''] 1 w_empty
       = (Some (ValueError ''No objects to concatenate''), w_empty)"
proof -
  have "discovered (files w_tree) [''log''] \<noteq> []" by (simp add: ex_agg_paths)
  from aggregate_succeeds[OF _ this ex_agg_extracts ex_agg_files(8,9), of 1]
  obtain w' where ok: "aggregate_results eval_ok uuid_ex [''log''] [''log''] 1 w_tree = (None, w')"
    by auto
  note inst = aggregate_rows_match_jobs[where w = w_tree and w' = w' and evaluate = eval_ok
      and ?uuid4.0 = uuid_ex and path_strs = "[''log'']" and out_dir = "[''log'']" and n_jobs = 1]
  from inst ok obtain rows where
    r: "stat (files w') ([''log''] @ [''data.csv'']) = Some (File (Csv rows))"
      "length rows = length (discovered (files w_tree) [''log'']) * 2"
      "inj uuid_ex
        \<and> (\<forall>p \<in> set (discovered (files w_tree) [''log'']). \<forall>cfg.
            open_r (files w_tree) (p @ [''config.pkl'']) = Inr (Pickle cfg) \<longrightarrow> \<not> hasattr cfg ''uuid'')
        \<and> (\<forall>cfg model st d r. eval_ok cfg model st d = Inr r \<longrightarrow> ''uuid'' \<notin> fst ` set (m_entropies r))
        \<longrightarrow> (\<forall>i < length rows. map_of (rows ! i) ''uuid'' = Some (PStr (uuid_ex i)))
            \<and> distinct (map (\<lambda>r. map_of r ''uuid'') rows)
            \<and> distinct rows"
    by blast
  from r(2) have len: "length rows = 6" by (simp add: ex_agg_paths)
  from r(3) inj_uuid_ex ex_agg_no_uuid ex_eval_no_uuid
  have u: "\<forall>i < length rows. map_of (rows ! i) ''uuid'' = Some (PStr (uuid_ex i))"
    and d: "distinct (map (\<lambda>r. map_of r ''uuid'') rows)" by blast+
  from u len have u0: "map_of (rows ! 0) ''uuid'' = Some (PStr (uuid_ex 0))" by simp
  from inst have one: "distinct (discovered (files w_tree) [''log''])" by simp
  from aggregate_rows_match_jobs[where w = w_empty and evaluate = eval_ok
      and ?uuid4.0 = uuid_ex and path_strs = "[''log'']" and out_dir = "[''log'']" and n_jobs = 1]
    ex_agg_nothing
  have none: "aggregate_results eval_ok uuid_ex [''log''] [''log''] 1 w_empty
       = (Some (ValueError ''No objects to concatenate''), w_empty)" by simp
  from ok r(1) len u0 d one none ex_agg_nothing show ?thesis by blast
qed


text \<open>
  The claim as stated fails when a directory is discovered from two roots: for the targets
  \<^verbatim>\<open>log log\<close> the three artifacts are discovered twice, twelve extractions are dispatched for
  the six pairs, and the pair of \<^verbatim>\<open>log/a\<close> and the discretized variant is extracted twice.
\<close>

theorem aggregate_duplicate_roots_counterexample:
  "discovered (files w_tree) [''log'', ''log''] =
     [[''log'', ''a''], [''log'', ''a'', ''nested''], [''log'', ''c'', ''d'', ''e''],
      [''log'', ''a''], [''log'', ''a'', ''nested''], [''log'', ''c'', ''d'', ''e'']]
   \<and> card (set (discovered (files w_tree) [''log'', ''log''])) * 2 = 6
   \<and> length (metric_jobs (discovered (files w_tree) [''log'', ''log''])) = 12
   \<and> count_list (metric_jobs (discovered (files w_tree) [''log'', ''log''])) ([''log'', ''a''], True) = 2"
  by code_simp

text \<open>
  C6, as amended. If one extraction raises, \<^verbatim>\<open>aggregate_results\<close> raises and leaves the world
  as it was: nothing is written to \<^verbatim>\<open>data.csv\<close>, not even the rows already computed. The
  exception is the one an extraction raised (or joblib's refusal of \<^verbatim>\<open>n_jobs == 0\<close>); it is
  not wrapped.
\<close>

theorem aggregate_aborts_on_failure:
  assumes "i < length (metric_jobs (discovered (files w) path_strs))"
    and "collect_metrics evaluate (files w)
            (fst (metric_jobs (discovered (files w) path_strs) ! i)) out_dir
            (snd (metric_jobs (discovered (files w) path_strs) ! i)) (uuid4 i) = Inl e0"
  shows "\<exists>e. aggregate_results evaluate uuid4 path_strs out_dir n_jobs w = (Some e, w)
     \<and> ((n_jobs = 0 \<and> e = ValueError ''n_jobs == 0 in Parallel has no meaning'')
        \<or> (\<exists>j < length (metric_jobs (discovered (files w) path_strs)).
             collect_metrics evaluate (files w)
               (fst (metric_jobs (discovered (files w) path_strs) ! j)) out_dir
               (snd (metric_jobs (discovered (files w) path_strs) ! j)) (uuid4 j) = Inl e))"
proof (cases "n_jobs = 0")
  case True
  then show ?thesis by (simp add: aggregate_results_def Let_def parallel_map_def)
next
  case False
  let ?jobs = "metric_jobs (discovered (files w) path_strs)"
  let ?f = "\<lambda>(i, p, d). collect_metrics evaluate (files w) p out_dir d (uuid4 i)"
  have "(i, ?jobs ! i) \<in> set (enumerate 0 ?jobs)" using assms(1) by (simp add: in_set_enumerate_eq)
  moreover have "?f (i, ?jobs ! i) = Inl e0" using assms(2) by (simp add: split_beta)
  ultimately obtain e where e: "run_all ?f (enumerate 0 ?jobs) = Inl e"
    using run_all_fails[of "(i, ?jobs ! i)" "enumerate 0 ?jobs" ?f e0] by blast
  from run_all_Inl[OF this] obtain j where "(j, ?jobs ! j) \<in> set (enumerate 0 ?jobs)"
    and "?f (j, ?jobs ! j) = Inl e"
    by (auto simp: in_set_enumerate_eq)
  then have "j < length ?jobs"
    and "collect_metrics evaluate (files w) (fst (?jobs ! j)) out_dir (snd (?jobs ! j)) (uuid4 j) = Inl e"
    by (simp_all add: in_set_enumerate_eq split_beta)
  moreover from e False have "aggregate_results evaluate uuid4 path_strs out_dir n_jobs w = (Some e, w)"
    by (simp add: aggregate_results_def Let_def parallel_map_def)
  ultimately show ?thesis by blast
qed



lemma ex_bad_jobs:
  "metric_jobs (discovered (files w_bad) [''log'']) =
     [([''log'', ''a''], True), ([''log'', ''b''], True), ([''log'', ''a''], False), ([''log'', ''b''], False)]"
  by code_simp

lemma ex_bad_pickle: "open_r (files w_bad) ([''log'', ''a''] @ [''config.pkl'']) = Inr (Text ''truncated'')"
  by code_simp

lemma ex_bad_index: "0 < length (metric_jobs (discovered (files w_bad) [''log'']))"
  by (simp add: ex_bad_jobs)

lemma ex_bad_job:
  "collect_metrics eval_ok (files w_bad)
     (fst (metric_jobs (discovered (files w_bad) [''log'']) ! 0)) [''log'']
     (snd (metric_jobs (discovered (files w_bad) [''log'']) ! 0)) (uuid_ex 0)
   = Inl (UnpicklingError [''log'', ''a'', ''config.pkl''])"
  using collect_metrics_unpickling[OF ex_bad_pickle] by (simp add: ex_bad_jobs)

lemma ex_bad_run:
  "aggregate_results eval_ok uuid_ex [''log''] [''log''] 1 w_bad
   = (Some (UnpicklingError [''log'', ''a'', ''config.pkl'']), w_bad)"
  using collect_metrics_unpickling[OF ex_bad_pickle, of eval_ok "[''log'']" True "uuid_ex 0"]
  by (simp add: aggregate_results_def Let_def parallel_map_def ex_bad_jobs enumerate_simps bind_err_def)

theorem aggregate_aborts_on_failure_witness:
  "0 < length (metric_jobs (discovered (files w_bad) [''log'']))
   \<and> collect_metrics eval_ok (files w_bad)
       (fst (metric_jobs (discovered (files w_bad) [''log'']) ! 0)) [''log'']
       (snd (metric_jobs (discovered (files w_bad) [''log'']) ! 0)) (uuid_ex 0)
     = Inl (UnpicklingError [''log'', ''a'', ''config.pkl''])
   \<and> (\<exists>e. aggregate_results eval_ok uuid_ex [''log''] [''log''] 1 w_bad = (Some e, w_bad))
   \<and> stat (files w_bad) ([''log''] @ [''data.csv'']) = None"
proof -
  from aggregate_aborts_on_failure[where w = w_bad and path_strs = "[''log'']" and i = 0 and evaluate = eval_ok
      and out_dir = "[''log'']" and ?uuid4.0 = uuid_ex and n_jobs = 1, OF ex_bad_index ex_bad_job]
  have "\<exists>e. aggregate_results eval_ok uuid_ex [''log''] [''log''] 1 w_bad = (Some e, w_bad)" by blast
  moreover have "stat (files w_bad) ([''log''] @ [''data.csv'']) = None" by code_simp
  ultimately show ?thesis using ex_bad_index ex_bad_job by blast
qed


text \<open>
  The claim as stated fails in the kind of the error: with a \<^verbatim>\<open>config.pkl\<close> that is not a
  pickle the aggregation ends in that extraction's own error, not in an
  \<^verbatim>\<open>AggregationError\<close>.
\<close>

theorem aggregate_error_is_not_wrapped_counterexample:
  "aggregate_results eval_ok uuid_ex [''log''] [''log''] 1 w_bad
     = (Some (UnpicklingError [''log'', ''a'', ''config.pkl'']), w_bad)
   \<and> UnpicklingError [''log'', ''a'', ''config.pkl''] \<noteq> AggregationError"
  using ex_bad_run by simp


section \<open>Properties of the schema backfill\<close>

lemma step_adds: "hasattr (if \<not> hasattr c k then setattr c k v else c) k"
  by (simp add: hasattr_def setattr_def update_conv')

lemma step_keeps: "hasattr c k \<Longrightarrow> hasattr (if b then setattr c k' v else c) k"
  by (simp add: hasattr_def setattr_def update_conv')

lemma patch_old_configs_backfills:
  "hasattr (patch_old_configs cfg) ''obs_type''"
  "hasattr (patch_old_configs cfg) ''policy_activation''"
  "hasattr (patch_old_configs cfg) ''bottleneck_temperature''"
  "hasattr (patch_old_configs cfg) ''reward_structure''"
  "hasattr (patch_old_configs cfg) ''n_proc_alg''"
  "hasattr (patch_old_configs cfg) ''discrete_action''"
  unfolding patch_old_configs_def Let_def
  by (rule step_adds | rule step_keeps)+


lemma get_step:
  "getattr (if b then setattr c k' v else c) k = (if b \<and> k = k' then Inr v else getattr c k)"
  by (simp add: getattr_def setattr_def update_conv')

lemma has_step:
  "hasattr (if b then setattr c k' v else c) k = (hasattr c k \<or> (b \<and> k = k'))"
  by (auto simp: hasattr_def setattr_def update_conv')

lemma patch_old_configs_fields:
  "getattr (patch_old_configs cfg) ''obs_type'' =
     (if hasattr cfg ''obs_type'' then getattr cfg ''obs_type'' else Inr (PStr ''vector''))"
  "getattr (patch_old_configs cfg) ''policy_activation'' =
     (if hasattr cfg ''policy_activation'' then getattr cfg ''policy_activation'' else Inr (PStr ''tanh''))"
  "getattr (patch_old_configs cfg) ''bottleneck_temperature'' =
     (if hasattr cfg ''bottleneck_temperature'' then getattr cfg ''bottleneck_temperature'' else Inr (PFloat ''1.0''))"
  "getattr (patch_old_configs cfg) ''reward_structure'' =
     (if hasattr cfg ''reward_structure'' then getattr cfg ''reward_structure'' else Inr (PStr ''proximity''))"
  "getattr (patch_old_configs cfg) ''n_proc_alg'' =
     (if hasattr cfg ''n_proc_alg'' then getattr cfg ''n_proc_alg'' else Inr (PInt 1))"
  "getattr (patch_old_configs cfg) ''discrete_action'' =
     (if hasattr cfg ''discrete_action'' then getattr cfg ''discrete_action'' else Inr (PBool False))"
  "getattr (patch_old_configs cfg) ''action_noise'' =
     (if hasattr cfg ''bottleneck_temperature'' then getattr cfg ''action_noise'' else Inr (PFloat ''0.0''))"
proof -
  define c1 where "c1 = (if \<not> hasattr cfg ''obs_type'' then setattr cfg ''obs_type'' (PStr ''vector'') else cfg)"
  define c2 where "c2 = (if \<not> hasattr c1 ''policy_activation''
                  then setattr c1 ''policy_activation'' (PStr ''tanh'') else c1)"
  define c3 where "c3 = (if \<not> hasattr c2 ''bottleneck_temperature''
                  then setattr c2 ''action_noise'' (PFloat ''0.0'') else c2)"
  define c4 where "c4 = (if \<not> hasattr c3 ''bottleneck_temperature''
                  then setattr c3 ''bottleneck_temperature'' (PFloat ''1.0'') else c3)"
  define c5 where "c5 = (if \<not> hasattr c4 ''reward_structure''
                  then setattr c4 ''reward_structure'' (PStr ''proximity'') else c4)"
  define c6 where "c6 = (if \<not> hasattr c5 ''n_proc_alg'' then setattr c5 ''n_proc_alg'' (PInt 1) else c5)"
  define c7 where "c7 = (if \<not> hasattr c6 ''discrete_action''
                  then setattr c6 ''discrete_action'' (PBool False) else c6)"
  have p: "patch_old_configs cfg = c7"
    unfolding patch_old_configs_def Let_def c7_def c6_def c5_def c4_def c3_def c2_def c1_def
    by (rule refl)
  have s1: "getattr c1 k = (if \<not> hasattr cfg ''obs_type'' \<and> k = ''obs_type'' then Inr (PStr ''vector'') else getattr cfg k)"
           "hasattr c1 k = (hasattr cfg k \<or> (\<not> hasattr cfg ''obs_type'' \<and> k = ''obs_type''))" for k
    unfolding c1_def by (rule get_step, rule has_step)
  have s2: "getattr c2 k = (if \<not> hasattr c1 ''policy_activation'' \<and> k = ''policy_activation'' then Inr (PStr ''tanh'') else getattr c1 k)"
           "hasattr c2 k = (hasattr c1 k \<or> (\<not> hasattr c1 ''policy_activation'' \<and> k = ''policy_activation''))" for k
    unfolding c2_def by (rule get_step, rule has_step)
  have s3: "getattr c3 k = (if \<not> hasattr c2 ''bottleneck_temperature'' \<and> k = ''action_noise'' then Inr (PFloat ''0.0'') else getattr c2 k)"
           "hasattr c3 k = (hasattr c2 k \<or> (\<not> hasattr c2 ''bottleneck_temperature'' \<and> k = ''action_noise''))" for k
    unfolding c3_def by (rule get_step, rule has_step)
  have s4: "getattr c4 k = (if \<not> hasattr c3 ''bottleneck_temperature'' \<and> k = ''bottleneck_temperature'' then Inr (PFloat ''1.0'') else getattr c3 k)"
           "hasattr c4 k = (hasattr c3 k \<or> (\<not> hasattr c3 ''bottleneck_temperature'' \<and> k = ''bottleneck_temperature''))" for k
    unfolding c4_def by (rule get_step, rule has_step)
  have s5: "getattr c5 k = (if \<not> hasattr c4 ''reward_structure'' \<and> k = ''reward_structure'' then Inr (PStr ''proximity'') else getattr c4 k)"
           "hasattr c5 k = (hasattr c4 k \<or> (\<not> hasattr c4 ''reward_structure'' \<and> k = ''reward_structure''))" for k
    unfolding c5_def by (rule get_step, rule has_step)
  have s6: "getattr c6 k = (if \<not> hasattr c5 ''n_proc_alg'' \<and> k = ''n_proc_alg'' then Inr (PInt 1) else getattr c5 k)"
           "hasattr c6 k = (hasattr c5 k \<or> (\<not> hasattr c5 ''n_proc_alg'' \<and> k = ''n_proc_alg''))" for k
    unfolding c6_def by (rule get_step, rule has_step)
  have s7: "getattr c7 k = (if \<not> hasattr c6 ''discrete_action'' \<and> k = ''discrete_action'' then Inr (PBool False) else getattr c6 k)"
           "hasattr c7 k = (hasattr c6 k \<or> (\<not> hasattr c6 ''discrete_action'' \<and> k = ''discrete_action''))" for k
    unfolding c7_def by (rule get_step, rule has_step)
  note s = s1 s2 s3 s4 s5 s6 s7
  show "getattr (patch_old_configs cfg) ''obs_type'' =
     (if hasattr cfg ''obs_type'' then getattr cfg ''obs_type'' else Inr (PStr ''vector''))"
    unfolding p by (simp add: s)
  show "getattr (patch_old_configs cfg) ''policy_activation'' =
     (if hasattr cfg ''policy_activation'' then getattr cfg ''policy_activation'' else Inr (PStr ''tanh''))"
    unfolding p by (simp add: s)
  show "getattr (patch_old_configs cfg) ''bottleneck_temperature'' =
     (if hasattr cfg ''bottleneck_temperature'' then getattr cfg ''bottleneck_temperature'' else Inr (PFloat ''1.0''))"
    unfolding p by (simp add: s)
  show "getattr (patch_old_configs cfg) ''reward_structure'' =
     (if hasattr cfg ''reward_structure'' then getattr cfg ''reward_structure'' else Inr (PStr ''proximity''))"
    unfolding p by (simp add: s)
  show "getattr (patch_old_configs cfg) ''n_proc_alg'' =
     (if hasattr cfg ''n_proc_alg'' then getattr cfg ''n_proc_alg'' else Inr (PInt 1))"
    unfolding p by (simp add: s)
  show "getattr (patch_old_configs cfg) ''discrete_action'' =
     (if hasattr cfg ''discrete_action'' then getattr cfg ''discrete_action'' else Inr (PBool False))"
    unfolding p by (simp add: s)
  show "getattr (patch_old_configs cfg) ''action_noise'' =
     (if hasattr cfg ''bottleneck_temperature'' then getattr cfg ''action_noise'' else Inr (PFloat ''0.0''))"
    unfolding p by (simp add: s)
qed

lemma ex_old_patch: "patch_old_configs cfg_old = cfg_old"
  by code_simp

lemma ex_old_env: "make_env_kwargs cfg_old = Inl (AttributeError ''action_noise'')"
  by code_simp

lemma ex_old_pickle: "open_r fs_old ([''old''] @ [''config.pkl'']) = Inr (Pickle cfg_old)"
  by code_simp

lemma ex_old_extract:
  "collect_metrics eval_ok fs_old [''old''] [''out''] True ''id'' = Inl (AttributeError ''action_noise'')"
  by (rule collect_metrics_env_error[OF ex_old_pickle]) (simp add: ex_old_patch ex_old_env)


lemma ex_old_fields:
  "\<not> hasattr cfg_old ''action_noise''"
  "hasattr cfg_old ''bottleneck_temperature''"
  "getattr cfg_noisy ''action_noise'' = Inr (PFloat ''0.5'')"
  "getattr (patch_old_configs cfg_noisy) ''action_noise'' = Inr (PFloat ''0.0'')"
  by code_simp+

text \<open>
  C7. The backfill of \<^verbatim>\<open>action_noise\<close> is guarded by the presence of
  \<^verbatim>\<open>bottleneck_temperature\<close>. A configuration that lacks \<^verbatim>\<open>action_noise\<close> and has
  \<^verbatim>\<open>bottleneck_temperature\<close> is returned as it is; \<^verbatim>\<open>make_env_kwargs\<close> then raises
  \<^verbatim>\<open>AttributeError\<close>, and so does the extraction of an artifact with that configuration. A
  configuration that lacks \<^verbatim>\<open>bottleneck_temperature\<close> has its own \<^verbatim>\<open>action_noise\<close> replaced by
  \<^verbatim>\<open>0.0\<close>. The other six fields are backfilled with their defaults (\<open>patch_old_configs_fields\<close>).
\<close>

theorem patch_old_configs_skips_action_noise:
  "\<not> hasattr cfg_old ''action_noise''
   \<and> hasattr cfg_old ''bottleneck_temperature''
   \<and> patch_old_configs cfg_old = cfg_old
   \<and> make_env_kwargs (patch_old_configs cfg_old) = Inl (AttributeError ''action_noise'')
   \<and> collect_metrics eval_ok fs_old [''old''] [''out''] True ''id'' = Inl (AttributeError ''action_noise'')
   \<and> getattr cfg_noisy ''action_noise'' = Inr (PFloat ''0.5'')
   \<and> getattr (patch_old_configs cfg_noisy) ''action_noise'' = Inr (PFloat ''0.0'')"
  using ex_old_fields ex_old_patch ex_old_env ex_old_extract by simp

end
